theory Spec2Isabelle
  imports Main "HOL-Library.Word"
begin

unbundle bit_operations_syntax

section \<open>Scalars\<close>

text \<open>
  A scalar (\<^verbatim>\<open>fr_gpu\<close>) is four 64-bit limbs, least significant first. The source reads
  \<^verbatim>\<open>scalar.data[j]\<close>; an index outside 0..3 reads past the array, which the model
  reports as \<open>None\<close>.
\<close>

datatype fr_gpu = Fr (limb0: "64 word") (limb1: "64 word") (limb2: "64 word") (limb3: "64 word")

definition data :: "fr_gpu \<Rightarrow> nat \<Rightarrow> 64 word option" where
  "data s j =
     (if j = 0 then Some (limb0 s)
      else if j = 1 then Some (limb1 s)
      else if j = 2 then Some (limb2 s)
      else if j = 3 then Some (limb3 s)
      else None)"

text \<open>The unsigned integer a scalar's limbs hold.\<close>

definition fr_value :: "fr_gpu \<Rightarrow> nat" where
  "fr_value s =
     unat (limb0 s) + 2 ^ 64 * unat (limb1 s) + 2 ^ 128 * unat (limb2 s) + 2 ^ 192 * unat (limb3 s)"

section \<open>Digit decomposition\<close>

text \<open>
  \<^verbatim>\<open>(1 << width) - 1\<close> is computed in 32-bit \<^verbatim>\<open>int\<close> and then converted to
  \<^verbatim>\<open>uint64_t\<close> for the \<^verbatim>\<open>&=\<close>, which sign-extends. Shifts follow the device's shift
  instructions, which give 0 once the count reaches the operand's width; \<open>push_bit\<close> and
  \<open>drop_bit\<close> on words do the same.
\<close>

definition digit_mask :: "nat \<Rightarrow> 64 word" where
  "digit_mask width = scast (push_bit width (1 :: 32 word) - 1)"

text \<open>
  \<^verbatim>\<open>decompose_scalar_digit(scalar, num, width)\<close>. \<^verbatim>\<open>num * width\<close> is a product of two
  \<^verbatim>\<open>unsigned\<close> values and wraps at \<open>2 ^ 32\<close>.
\<close>

definition decompose_scalar_digit :: "fr_gpu \<Rightarrow> nat \<Rightarrow> nat \<Rightarrow> 64 word option" where
  "decompose_scalar_digit scalar num width =
     (let limb_lsb_idx = ((num * width) mod 2 ^ 32) div 64;
          shift_bits = ((num * width) mod 2 ^ 32) mod 64
      in case data scalar limb_lsb_idx of
           None \<Rightarrow> None
         | Some lo \<Rightarrow>
             (let rv = drop_bit shift_bits lo
              in if shift_bits + width > 64 \<and> limb_lsb_idx + 1 < 4
                 then (case data scalar (limb_lsb_idx + 1) of
                         None \<Rightarrow> None
                       | Some hi \<Rightarrow> Some ((rv + push_bit (64 - shift_bits) hi) AND digit_mask width))
                 else Some (rv AND digit_mask width)))"

text \<open>Recombination of a digit list as \<open>\<Sum>\<^sub>i digit\<^sub>i * 2 ^ (c * i)\<close>.\<close>

definition recombine :: "nat \<Rightarrow> 64 word list \<Rightarrow> nat" where
  "recombine c ds = (\<Sum>i < length ds. unat (ds ! i) * 2 ^ (c * i))"

section \<open>Curve points and the arithmetic the kernels call\<close>

text \<open>
  A point (\<^verbatim>\<open>g1_gpu::element\<close>) has three coordinates \<^verbatim>\<open>x\<close>, \<^verbatim>\<open>y\<close>, \<^verbatim>\<open>z\<close>, written
  \<open>X\<close>, \<open>Y\<close>, \<open>Z\<close> here. The four
  threads of one cooperative group each hold one limb of every coordinate and call the
  field and group routines together, so one group is modelled as one worker that acts on
  whole coordinates and whole points.

  The field and group routines (\<^verbatim>\<open>fq_gpu::load\<close> of the constant 0, \<^verbatim>\<open>fq_gpu::is_zero\<close>,
  \<^verbatim>\<open>g1_gpu::add\<close>, \<^verbatim>\<open>g1_gpu::doubling\<close>) are not part of \<^verbatim>\<open>kernel.cu\<close>; the kernels
  take them as a parameter \<open>C\<close>. \<open>add C a b\<close> is the point that
  \<^verbatim>\<open>g1_gpu::add(a.x, a.y, a.z, b.x, b.y, b.z, r.x, r.y, r.z)\<close> leaves in \<^verbatim>\<open>r\<close>.
\<close>

record 'f element =
  X :: 'f
  Y :: 'f
  Z :: 'f

record 'f curve =
  fq_zero :: 'f
  fq_is_zero :: "'f \<Rightarrow> bool"
  add :: "'f element \<Rightarrow> 'f element \<Rightarrow> 'f element"
  doubling :: "'f element \<Rightarrow> 'f element"

text \<open>The point whose three coordinates are loaded with 0.\<close>

definition zero_element :: "'f curve \<Rightarrow> 'f element" where
  "zero_element C = \<lparr>X = fq_zero C, Y = fq_zero C, Z = fq_zero C\<rparr>"

text \<open>The test \<^verbatim>\<open>is_zero(p.x) && is_zero(p.y) && is_zero(p.z)\<close>.\<close>

definition is_zero_element :: "'f curve \<Rightarrow> 'f element \<Rightarrow> bool" where
  "is_zero_element C p \<longleftrightarrow> fq_is_zero C (X p) \<and> fq_is_zero C (Y p) \<and> fq_is_zero C (Z p)"

text \<open>Reading a device array; an index past the end is \<open>None\<close>.\<close>

definition read :: "'a list \<Rightarrow> nat \<Rightarrow> 'a option" where
  "read xs i = (if i < length xs then Some (xs ! i) else None)"

section \<open>Naive double-and-add kernel\<close>

text \<open>
  The loop \<^verbatim>\<open>for (int i = 64; i >= 0; i--)\<close> over one limb \<open>w\<close>: the counter \<open>Suc i\<close> stands for
  the iteration with index \<open>i\<close>. The test \<^verbatim>\<open>(w >> i) & 1\<close> reads bit 0 of the shifted limb;
  at \<open>i = 64\<close> the shifted limb is 0.
\<close>

primrec bit_loop :: "'f curve \<Rightarrow> 64 word \<Rightarrow> 'f element \<Rightarrow> nat \<Rightarrow> 'f element \<Rightarrow> 'f element" where
  "bit_loop C w Q 0 R = R"
| "bit_loop C w Q (Suc i) R =
     bit_loop C w Q i
       (let R1 = (if bit (drop_bit i w) 0 then add C Q R else R)
        in if i \<noteq> 0 then doubling C R1 else R1)"

text \<open>The loop \<^verbatim>\<open>for (int j = 3; j >= 0; j--)\<close> over the limbs of a scalar, last limb first.\<close>

definition limb_loop :: "'f curve \<Rightarrow> fr_gpu \<Rightarrow> 'f element \<Rightarrow> 'f element \<Rightarrow> 'f element" where
  "limb_loop C s Q R =
     foldl (\<lambda>R w. bit_loop C w Q 65 R) R [limb3 s, limb2 s, limb1 s, limb0 s]"

text \<open>
  One iteration of the loop over the points of \<^verbatim>\<open>double_and_add_kernel\<close>: \<open>R\<close> starts at the
  zero point, \<open>Q\<close> is \<^verbatim>\<open>test_points[z]\<close>, and the product is added into \<^verbatim>\<open>final_result[0]\<close>.
\<close>

definition double_and_add_step ::
  "'f curve \<Rightarrow> fr_gpu list \<Rightarrow> 'f element list \<Rightarrow> nat \<Rightarrow> 'f element \<Rightarrow> 'f element option" where
  "double_and_add_step C test_scalars test_points z final_result =
     (case read test_points z of
        None \<Rightarrow> None
      | Some Q \<Rightarrow>
          (case read test_scalars z of
             None \<Rightarrow> None
           | Some s \<Rightarrow> Some (add C (limb_loop C s Q (zero_element C)) final_result)))"

definition double_and_add_kernel ::
  "'f curve \<Rightarrow> fr_gpu list \<Rightarrow> 'f element list \<Rightarrow> nat \<Rightarrow> 'f element option" where
  "double_and_add_kernel C test_scalars test_points num_points =
     fold (\<lambda>z acc. Option.bind acc (double_and_add_step C test_scalars test_points z))
       [0 ..< num_points] (Some (zero_element C))"

section \<open>Final accumulation kernel\<close>

text \<open>The local constant \<^verbatim>\<open>fr_gpu exponent{ 1024, 0, 0, 0 }\<close>.\<close>

definition exponent :: fr_gpu where
  "exponent = Fr 1024 0 0 0"

text \<open>
  The loop \<^verbatim>\<open>for (unsigned z = 26; z > 0; z--)\<close>: the counter \<open>Suc z\<close> stands for the iteration
  that reads \<^verbatim>\<open>final_sum[z]\<close> (the source's \<^verbatim>\<open>final_sum[z - 1]\<close>).
\<close>

primrec final_accumulation_loop ::
  "'f curve \<Rightarrow> 'f element list \<Rightarrow> nat \<Rightarrow> 'f element \<Rightarrow> 'f element option" where
  "final_accumulation_loop C final_sum 0 final_result = Some final_result"
| "final_accumulation_loop C final_sum (Suc z) final_result =
     (case read final_sum z of
        None \<Rightarrow> None
      | Some m \<Rightarrow>
          (let R = limb_loop C exponent final_result (zero_element C);
               r = add C R m
           in final_accumulation_loop C final_sum z
                (if is_zero_element C r then doubling C R else r)))"

definition final_accumulation_kernel ::
  "'f curve \<Rightarrow> 'f element list \<Rightarrow> nat \<Rightarrow> nat \<Rightarrow> 'f element option" where
  "final_accumulation_kernel C final_sum num_bucket_modules c =
     final_accumulation_loop C final_sum 26 (zero_element C)"

section \<open>Bucket kernels\<close>

text \<open>
  A worker of a bucket kernel owns the slot \<^verbatim>\<open>subgroup + subgroup_size * blockIdx.x\<close>, written
  \<open>slot\<close> below.

  \<^verbatim>\<open>initialize_buckets_kernel\<close> indexes the limbs with the global thread id \<^verbatim>\<open>tid\<close> itself
  (\<^verbatim>\<open>.data[tid]\<close>, not \<^verbatim>\<open>.data[tid % 4]\<close>). The worker's four lanes have the thread ids
  \<open>tid\<close>, \<open>tid + 1\<close>, \<open>tid + 2\<close>, \<open>tid + 3\<close>; a lane whose id is 4 or more reads and writes
  past the four limbs of a coordinate, which the model reports as \<open>None\<close>. The value
  stored, \<^verbatim>\<open>fq_gpu::zero()\<close>, is the field's zero, \<open>fq_zero C\<close>.
\<close>

definition initialize_buckets_kernel ::
  "'f curve \<Rightarrow> 'f element list \<Rightarrow> nat \<Rightarrow> nat \<Rightarrow> 'f element list option" where
  "initialize_buckets_kernel C bucket tid slot =
     (if tid + 3 < 4 \<and> slot < length bucket
      then Some (bucket[slot := zero_element C])
      else None)"

text \<open>
  \<^verbatim>\<open>accumulate_buckets_kernel\<close>, one worker. The kernel reads the worker's bucket index, size
  and offset, returns at once for an empty bucket, and otherwise calls
  \<^verbatim>\<open>thrust::reduce(thrust::device, buckets, buckets + sizeof(buckets), zero_element, binaryElementAdd())\<close>
  \<^verbatim>\<open>num_buckets\<close> times. \<^verbatim>\<open>sizeof(buckets)\<close> is the size of a pointer, 8, so the range read is
  the first eight buckets. The call leaves the range as it is and its value is dropped, and
  the loop that added \<^verbatim>\<open>points[point_indices[bucket_offset + i]]\<close> into
  \<^verbatim>\<open>buckets[bucket_index]\<close> is commented out in the source, so nothing is stored: of the call
  the model keeps the range it reads.

  The dropped value itself is not a point of this model. The functor \<^verbatim>\<open>binaryElementAdd\<close>
  hands \<^verbatim>\<open>*element_a.x.data\<close>, the first limb of a coordinate, to \<^verbatim>\<open>g1_gpu::add\<close> from every
  thread, where the kernels hand over \<^verbatim>\<open>.data[tid % 4]\<close>; the limbs 1 to 3 of its operands
  are never read, and every thread keeps a result of its own. The initial value
  \<^verbatim>\<open>zero_element\<close> is a local that is never assigned; the argument \<open>zero_element'\<close> stands
  for it.
\<close>

definition accumulate_buckets_kernel ::
  "'f curve \<Rightarrow> 'f element list \<Rightarrow> nat list \<Rightarrow> nat list \<Rightarrow> nat list \<Rightarrow> nat list \<Rightarrow>
     'f element list \<Rightarrow> nat \<Rightarrow> 'f element \<Rightarrow> nat \<Rightarrow> 'f element list option" where
  "accumulate_buckets_kernel C buckets bucket_offsets bucket_sizes single_bucket_indices
       point_indices points num_buckets zero_element' slot =
     (case read single_bucket_indices slot of
        None \<Rightarrow> None
      | Some bucket_index \<Rightarrow>
          (case read bucket_sizes slot of
             None \<Rightarrow> None
           | Some bucket_size \<Rightarrow>
               (case read bucket_offsets slot of
                  None \<Rightarrow> None
                | Some bucket_offset \<Rightarrow>
                    if bucket_size = 0 then Some buckets
                    else if 0 < num_buckets \<and> length buckets < 8 then None
                    else Some buckets)))"

text \<open>
  \<^verbatim>\<open>bucket_running_sum_kernel\<close>, one worker. The loop
  \<^verbatim>\<open>for (unsigned i = (1 << c) - 2; i > 0; i--)\<close>: the counter \<open>Suc i\<close> stands for the iteration
  with index \<open>Suc i\<close>; \<open>base\<close> is \<^verbatim>\<open>slot * (1 << c)\<close>, and the index \<^verbatim>\<open>base + i\<close> is
  \<^verbatim>\<open>unsigned\<close>.
\<close>

primrec running_sum_loop ::
  "'f curve \<Rightarrow> 'f element list \<Rightarrow> nat \<Rightarrow> nat \<Rightarrow> 'f element \<times> 'f element \<Rightarrow>
     ('f element \<times> 'f element) option" where
  "running_sum_loop C buckets base 0 st = Some st"
| "running_sum_loop C buckets base (Suc i) st =
     (case read buckets ((base + Suc i) mod 2 ^ 32) of
        None \<Rightarrow> None
      | Some b \<Rightarrow>
          (let line_sum = add C b (fst st);
               final_sum = add C line_sum (snd st)
           in running_sum_loop C buckets base i
                (line_sum, if is_zero_element C final_sum then doubling C line_sum else final_sum)))"

text \<open>
  \<^verbatim>\<open>1 << c\<close> is a 32-bit \<^verbatim>\<open>int\<close>, and the first index \<^verbatim>\<open>(slot + 1) * (1 << c) - 1\<close> is
  computed in \<^verbatim>\<open>int\<close>. For \<open>c > 30\<close> the shifted value is not positive, and beyond \<open>2 ^ 31 - 1\<close>
  the product leaves the \<^verbatim>\<open>int\<close> range: the first read is then outside the array. The
  start of the loop counter, \<^verbatim>\<open>(1 << c) - 2\<close>, is converted to \<^verbatim>\<open>unsigned\<close> and wraps for
  \<open>c = 0\<close>.
\<close>

definition bucket_running_sum_kernel ::
  "'f curve \<Rightarrow> 'f element list \<Rightarrow> nat \<Rightarrow> nat \<Rightarrow> 'f element option" where
  "bucket_running_sum_kernel C buckets c slot =
     (if c > 30 \<or> (slot + 1) * 2 ^ c \<ge> 2 ^ 31 then None
      else (case read buckets ((slot + 1) * 2 ^ c - 1) of
              None \<Rightarrow> None
            | Some line_sum \<Rightarrow>
                map_option snd
                  (running_sum_loop C buckets (slot * 2 ^ c) ((2 ^ c + 2 ^ 32 - 2) mod 2 ^ 32)
                     (line_sum, line_sum))))"

text \<open>
  \<^verbatim>\<open>bucket_running_sum_kernel_2\<close>, one worker; the pair returned is \<open>(S, G)\<close>, which the kernel
  stores to \<^verbatim>\<open>S_[blockIdx.x]\<close> and \<^verbatim>\<open>G_[blockIdx.x]\<close>. The loop
  \<^verbatim>\<open>for (unsigned u = U - 1; u < U; u--)\<close> runs \<open>u\<close> from \<open>U - 1\<close> down to 0: the counter
  \<open>Suc u\<close> stands for the iteration with index \<open>u\<close>. \<open>seg\<close> is \<^verbatim>\<open>1 << (M - 1)\<close>: the shift
  gives 0 once the count reaches 32, and \<^verbatim>\<open>M - 1\<close> wraps for \<open>M = 0\<close>. The bucket index is
  \<^verbatim>\<open>unsigned\<close>.
\<close>

primrec running_sum_2_loop ::
  "'f curve \<Rightarrow> 'f element list \<Rightarrow> nat \<Rightarrow> nat \<Rightarrow> 'f element \<times> 'f element \<Rightarrow>
     ('f element \<times> 'f element) option" where
  "running_sum_2_loop C buckets base 0 st = Some st"
| "running_sum_2_loop C buckets base (Suc u) st =
     (let S = fst st;
          g = add C S (snd st);
          G = (if is_zero_element C g then doubling C S else g)
      in case read buckets ((base + u) mod 2 ^ 32) of
           None \<Rightarrow> None
         | Some b \<Rightarrow> running_sum_2_loop C buckets base u (add C S b, G))"

definition bucket_running_sum_kernel_2 ::
  "'f curve \<Rightarrow> 'f element list \<Rightarrow> nat \<Rightarrow> nat \<Rightarrow> nat \<Rightarrow> ('f element \<times> 'f element) option" where
  "bucket_running_sum_kernel_2 C buckets M U slot =
     (let seg = (if 1 \<le> M \<and> M \<le> 32 then 2 ^ (M - 1) else 0)
      in running_sum_2_loop C buckets (slot * seg) U (zero_element C, zero_element C))"

text \<open>
  \<^verbatim>\<open>bucket_running_sum_kernel_3\<close>, one worker; the value returned is what the kernel stores to
  \<^verbatim>\<open>result[blockIdx.x]\<close>. \<open>lg U\<close> stands for \<^verbatim>\<open>unsigned v = log2f(U)\<close>, a library routine on
  floating-point numbers. \<^verbatim>\<open>M - 1\<close> is \<^verbatim>\<open>unsigned\<close> and wraps for \<open>M = 0\<close>.
\<close>

definition running_sum_3_segments ::
  "'f curve \<Rightarrow> 'f element list \<Rightarrow> nat \<Rightarrow> nat \<Rightarrow> ('f element \<times> 'f element) option" where
  "running_sum_3_segments C S_arr base n =
     fold (\<lambda>m acc. case acc of
                      None \<Rightarrow> None
                    | Some st \<Rightarrow>
                        (case read S_arr ((base + m) mod 2 ^ 32) of
                           None \<Rightarrow> None
                         | Some s \<Rightarrow>
                             (let S = add C s (fst st);
                                  sk = add C (snd st) S
                              in Some (S, if is_zero_element C sk then doubling C S else sk))))
       [0 ..< n] (Some (zero_element C, zero_element C))"

definition running_sum_3_offsets ::
  "'f curve \<Rightarrow> 'f element list \<Rightarrow> nat \<Rightarrow> nat \<Rightarrow> 'f element option" where
  "running_sum_3_offsets C G_arr base n =
     fold (\<lambda>m acc. case acc of
                      None \<Rightarrow> None
                    | Some G_k \<Rightarrow>
                        (case read G_arr ((base + m) mod 2 ^ 32) of
                           None \<Rightarrow> None
                         | Some g \<Rightarrow> Some (add C G_k g)))
       [0 ..< n] (Some (zero_element C))"

definition bucket_running_sum_kernel_3 ::
  "'f curve \<Rightarrow> (nat \<Rightarrow> nat) \<Rightarrow> 'f element list \<Rightarrow> 'f element list \<Rightarrow> nat \<Rightarrow> nat \<Rightarrow> nat \<Rightarrow>
     'f element option" where
  "bucket_running_sum_kernel_3 C lg S_arr G_arr M U slot =
     (let M1 = (M + 2 ^ 32 - 1) mod 2 ^ 32
      in case running_sum_3_segments C S_arr (slot * M1) M1 of
           None \<Rightarrow> None
         | Some st \<Rightarrow>
             (let S_k = (doubling C ^^ lg U) (snd st)
              in case running_sum_3_offsets C G_arr (slot * M1) M of
                   None \<Rightarrow> None
                 | Some G_k \<Rightarrow>
                     (let G_k' = add C S_k G_k
                      in Some S_k)))"

section \<open>Scalar splitting\<close>

text \<open>
  \<^verbatim>\<open>split_scalars_kernel\<close>: thread \<open>tid\<close> writes, for every module \<open>i\<close>, the packed key
  \<^verbatim>\<open>(i << c) | bucket_index\<close> to \<^verbatim>\<open>bucket_indices[i * npoints + tid]\<close> and \<open>tid\<close> to
  \<^verbatim>\<open>point_indices[i * npoints + tid]\<close>. The digit is narrowed to the 32-bit
  \<^verbatim>\<open>unsigned bucket_index\<close>, and the key is a 32-bit value.
\<close>

definition split_key :: "fr_gpu list \<Rightarrow> nat \<Rightarrow> nat \<Rightarrow> nat \<Rightarrow> 32 word option" where
  "split_key scalars c i tid =
     (case read scalars tid of
        None \<Rightarrow> None
      | Some scalar \<Rightarrow>
          (case decompose_scalar_digit scalar i c of
             None \<Rightarrow> None
           | Some digit \<Rightarrow> Some (push_bit c (word_of_nat i) OR ucast digit)))"

text \<open>
  The two arrays after all \<open>npoints\<close> threads have run: entry \<open>i * npoints + tid\<close> of each
  list is what thread \<open>tid\<close> wrote for module \<open>i\<close>.
\<close>

definition split_scalars_kernel ::
  "fr_gpu list \<Rightarrow> nat \<Rightarrow> nat \<Rightarrow> nat \<Rightarrow> (32 word list \<times> nat list) option" where
  "split_scalars_kernel scalars npoints num_bucket_modules c =
     (case those (concat (map (\<lambda>i. map (\<lambda>tid. split_key scalars c i tid) [0 ..< npoints])
                           [0 ..< num_bucket_modules])) of
        None \<Rightarrow> None
      | Some bucket_indices \<Rightarrow>
          Some (bucket_indices,
                concat (map (\<lambda>i. [0 ..< npoints]) [0 ..< num_bucket_modules])))"

section \<open>Host-side sequencing\<close>

text \<open>
  Modelled from the spec: the orchestrator that launches the kernels (sections 4.6, 6 and 7
  of the specification) is host code that \<^verbatim>\<open>kernel.cu\<close> does not contain. The stages run in
  the order decomposer, sorter, accumulator, reducer, final accumulator, each on the
  complete output of the one before. The sorter (section 4.2) is a collaborator outside
  \<^verbatim>\<open>kernel.cu\<close> and is the parameter \<open>sorter\<close>: from the keys and point indices it yields the
  bucket offsets, the bucket sizes, the bucket index of every worker and the sorted point
  indices. \<open>buckets0\<close> is the bucket array as it stands when the accumulator starts.
\<close>

definition accumulate_buckets ::
  "'f curve \<Rightarrow> 'f element list \<Rightarrow> nat list \<Rightarrow> nat list \<Rightarrow> nat list \<Rightarrow> nat list \<Rightarrow>
     'f element list \<Rightarrow> nat \<Rightarrow> 'f element \<Rightarrow> 'f element list option" where
  "accumulate_buckets C buckets0 bucket_offsets bucket_sizes single_bucket_indices
       point_indices points num_buckets zero_element' =
     fold (\<lambda>slot acc. Option.bind acc (\<lambda>buckets.
             accumulate_buckets_kernel C buckets bucket_offsets bucket_sizes
               single_bucket_indices point_indices points num_buckets zero_element' slot))
       [0 ..< length single_bucket_indices] (Some buckets0)"

definition msm_bucket_method ::
  "'f curve \<Rightarrow> (32 word list \<Rightarrow> nat list \<Rightarrow> nat list \<times> nat list \<times> nat list \<times> nat list) \<Rightarrow>
     'f element \<Rightarrow> 'f element list \<Rightarrow> nat \<Rightarrow> nat \<Rightarrow> fr_gpu list \<Rightarrow> 'f element list \<Rightarrow>
     'f element option" where
  "msm_bucket_method C sorter zero_element' buckets0 c num_bucket_modules scalars points =
     (case split_scalars_kernel scalars (length scalars) num_bucket_modules c of
        None \<Rightarrow> None
      | Some (bucket_indices, point_indices) \<Rightarrow>
          (case sorter bucket_indices point_indices of
             (bucket_offsets, bucket_sizes, single_bucket_indices, sorted_point_indices) \<Rightarrow>
               (case accumulate_buckets C buckets0 bucket_offsets bucket_sizes
                       single_bucket_indices sorted_point_indices points
                       (length single_bucket_indices) zero_element' of
                  None \<Rightarrow> None
                | Some buckets \<Rightarrow>
                    (case those (map (bucket_running_sum_kernel C buckets c)
                                   [0 ..< num_bucket_modules]) of
                       None \<Rightarrow> None
                     | Some final_sum \<Rightarrow>
                         final_accumulation_kernel C final_sum num_bucket_modules c))))"

text \<open>
  Modelled from the spec: \<open>msm\<close> (sections 4.6 and 7). For \<open>n = 0\<close> it returns the identity
  point and launches nothing; below the threshold it runs the naive kernel; otherwise it
  runs the bucket method. The second component lists the stages launched.
\<close>

datatype stage = Naive_double_and_add | Decomposer | Sorter | Accumulator | Reducer | Final_accumulator

definition msm ::
  "'f curve \<Rightarrow> (32 word list \<Rightarrow> nat list \<Rightarrow> nat list \<times> nat list \<times> nat list \<times> nat list) \<Rightarrow>
     'f element \<Rightarrow> 'f element list \<Rightarrow> nat \<Rightarrow> nat \<Rightarrow> nat \<Rightarrow> 'f element list \<Rightarrow> fr_gpu list \<Rightarrow> nat \<Rightarrow>
     'f element option \<times> stage list" where
  "msm C sorter zero_element' buckets0 threshold c num_bucket_modules points scalars n =
     (if n = 0 then (Some (zero_element C), [])
      else if n < threshold
      then (double_and_add_kernel C scalars points n, [Naive_double_and_add])
      else (msm_bucket_method C sorter zero_element' buckets0 c num_bucket_modules scalars points,
            [Decomposer, Sorter, Accumulator, Reducer, Final_accumulator]))"

section \<open>A reference arithmetic\<close>

text \<open>
  To run the kernels on concrete inputs, the collaborator arithmetic is instantiated with
  the multiples of one generator. A point stands for an integer multiple \<open>k\<close> of the
  generator: \<open>(k, 1, 1)\<close> for \<open>k \<noteq> 0\<close>, and the identity either as \<open>(1, 1, 0)\<close> or as the
  all-zero triple. The addition follows the raw formula of section 3 of the specification:
  it is exact on different operands and yields the all-zero triple on operands that stand
  for the same point.
\<close>

definition ref_val :: "int element \<Rightarrow> int" where
  "ref_val p = (if Z p = 0 then 0 else X p)"

definition ref_point :: "int \<Rightarrow> int element" where
  "ref_point k = (if k = 0 then \<lparr>X = 1, Y = 1, Z = 0\<rparr> else \<lparr>X = k, Y = 1, Z = 1\<rparr>)"

definition ref_add :: "int element \<Rightarrow> int element \<Rightarrow> int element" where
  "ref_add a b =
     (if ref_val a = ref_val b then \<lparr>X = 0, Y = 0, Z = 0\<rparr> else ref_point (ref_val a + ref_val b))"

definition ref_doubling :: "int element \<Rightarrow> int element" where
  "ref_doubling a =
     (if X a = 0 \<and> Y a = 0 \<and> Z a = 0 then a else ref_point (2 * ref_val a))"

definition ref_curve :: "int curve" where
  "ref_curve = \<lparr>fq_zero = 0, fq_is_zero = (\<lambda>v. v = 0), add = ref_add, doubling = ref_doubling\<rparr>"

text \<open>
  What the kernels may assume of the collaborator arithmetic, relative to a map \<open>val\<close> from
  points to the abstract group: doubling is exact; addition is exact unless its result is
  the all-zero triple, which stands for the identity and arises only from operands that
  stand for the same point.
\<close>

definition curve_contract :: "'f curve \<Rightarrow> ('f element \<Rightarrow> 'g::ab_group_add) \<Rightarrow> bool" where
  "curve_contract C val \<longleftrightarrow>
     val (zero_element C) = 0
     \<and> (\<forall>p. is_zero_element C p \<longrightarrow> val p = 0)
     \<and> (\<forall>a. val (doubling C a) = val a + val a)
     \<and> (\<forall>a b. \<not> is_zero_element C (add C a b) \<longrightarrow> val (add C a b) = val a + val b)
     \<and> (\<forall>a b. is_zero_element C (add C a b) \<longrightarrow> val a = val b)"

text \<open>The multiple \<open>n \<cdot> g\<close> in the abstract group.\<close>

primrec scalar_mul :: "nat \<Rightarrow> 'g::ab_group_add \<Rightarrow> 'g" where
  "scalar_mul 0 g = 0"
| "scalar_mul (Suc n) g = g + scalar_mul n g"

section \<open>Properties of the digit decomposition\<close>

lemma digit_mask_eq: "width \<le> 31 \<Longrightarrow> digit_mask width = mask width"
  unfolding digit_mask_def
  apply (rule bit_eqI)
  apply (auto simp add: bit_simps simp flip: mask_eq_exp_minus_1)
  done

lemma digit_mask_big:
  assumes "32 \<le> width" shows "digit_mask width = - 1"
proof -
  have "push_bit width (1 :: 32 word) = 0"
    using assms by - (rule bit_eqI, simp add: bit_simps)
  then have "push_bit width (1 :: 32 word) - 1 = - 1" by simp
  then show ?thesis unfolding digit_mask_def by (simp only: scast_n1)
qed

lemma bit_fr_value:
  "bit (fr_value s) n \<longleftrightarrow>
     (n < 64 \<and> bit (limb0 s) n) \<or> (64 \<le> n \<and> n < 128 \<and> bit (limb1 s) (n - 64)) \<or>
     (128 \<le> n \<and> n < 192 \<and> bit (limb2 s) (n - 128)) \<or> (192 \<le> n \<and> n < 256 \<and> bit (limb3 s) (n - 192))"
proof -
  have a: "fr_value s = ((unat (limb0 s) + push_bit 64 (unat (limb1 s))) + push_bit 128 (unat (limb2 s))) + push_bit 192 (unat (limb3 s))"
    by (simp add: fr_value_def push_bit_eq_mult)
  have b0: "\<And>w :: 64 word. \<And>n. bit (unat w) n \<Longrightarrow> n < 64"
    by (auto simp add: bit_simps dest: bit_imp_le_length)
  have 1: "unat (limb0 s) + push_bit 64 (unat (limb1 s)) = unat (limb0 s) OR push_bit 64 (unat (limb1 s))"
    by (rule disjunctive_add) (auto simp add: bit_simps dest: bit_imp_le_length)
  have 2: "(unat (limb0 s) OR push_bit 64 (unat (limb1 s))) + push_bit 128 (unat (limb2 s))
       = (unat (limb0 s) OR push_bit 64 (unat (limb1 s))) OR push_bit 128 (unat (limb2 s))"
    by (rule disjunctive_add) (auto simp add: bit_simps dest: bit_imp_le_length)
  have 3: "((unat (limb0 s) OR push_bit 64 (unat (limb1 s))) OR push_bit 128 (unat (limb2 s))) + push_bit 192 (unat (limb3 s))
       = ((unat (limb0 s) OR push_bit 64 (unat (limb1 s))) OR push_bit 128 (unat (limb2 s))) OR push_bit 192 (unat (limb3 s))"
    by (rule disjunctive_add) (auto simp add: bit_simps dest: bit_imp_le_length)
  show ?thesis
    unfolding a 1 2 3
    by (auto simp add: bit_simps dest: bit_imp_le_length)
qed

lemma digit_window:
  assumes sh: "sh < 64" and k: "k < 4" and w: "width \<le> 31"
  shows "(case data s k of
            None \<Rightarrow> None
          | Some lo \<Rightarrow>
              (if sh + width > 64 \<and> k + 1 < 4
               then (case data s (k + 1) of
                       None \<Rightarrow> None
                     | Some hi \<Rightarrow> Some ((drop_bit sh lo + push_bit (64 - sh) hi) AND digit_mask width))
               else Some (drop_bit sh lo AND digit_mask width)))
         = Some (word_of_nat (take_bit width (drop_bit (64 * k + sh) (fr_value s))))"
proof -
  have disj: "\<And>lo hi :: 64 word. drop_bit sh lo + push_bit (64 - sh) hi = drop_bit sh lo OR push_bit (64 - sh) hi"
    by (rule disjunctive_add) (use sh in \<open>auto simp add: bit_simps dest: bit_imp_le_length\<close>)
  consider "k = 0" | "k = 1" | "k = 2" | "k = 3" using k by linarith
  then show ?thesis
  proof cases
    case 1
    show ?thesis
      using sh w 1
      apply (simp add: data_def digit_mask_eq disj)
      apply (intro conjI impI)
      apply (rule bit_eqI; auto simp add: bit_simps bit_fr_value ac_simps dest: bit_imp_le_length)+
      done
  next
    case 2
    show ?thesis
      using sh w 2
      apply (simp add: data_def digit_mask_eq disj)
      apply (intro conjI impI)
      apply (rule bit_eqI; auto simp add: bit_simps bit_fr_value ac_simps dest: bit_imp_le_length)+
      done
  next
    case 3
    show ?thesis
      using sh w 3
      apply (simp add: data_def digit_mask_eq disj)
      apply (intro conjI impI)
      apply (rule bit_eqI; auto simp add: bit_simps bit_fr_value ac_simps dest: bit_imp_le_length)+
      done
  next
    case 4
    show ?thesis
      using sh w 4
      apply (simp add: data_def digit_mask_eq disj)
      apply (rule bit_eqI; auto simp add: bit_simps bit_fr_value ac_simps dest: bit_imp_le_length)+
      done
  qed
qed

lemma decompose_scalar_digit_word:
  assumes w: "width \<le> 31" and p: "num * width < 256"
  shows "decompose_scalar_digit s num width =
           Some (word_of_nat (take_bit width (drop_bit (num * width) (fr_value s))))"
proof -
  define k where "k = (num * width) div 64"
  define sh where "sh = (num * width) mod 64"
  have pk: "num * width = 64 * k + sh" and sh: "sh < 64" and k: "k < 4"
    using p by (auto simp add: k_def sh_def)
  have idx: "((num * width) mod 2 ^ 32) div 64 = k" and shf: "((num * width) mod 2 ^ 32) mod 64 = sh"
    using p by (simp_all add: k_def sh_def)
  have "decompose_scalar_digit s num width =
          Some (word_of_nat (take_bit width (drop_bit (64 * k + sh) (fr_value s))))"
    unfolding decompose_scalar_digit_def Let_def idx shf
    by (rule digit_window [OF sh k w])
  then show ?thesis by (simp only: pk)
qed

lemma decompose_scalar_digit_unat:
  assumes w: "width \<le> 31" and p: "num * width < 256"
  shows "\<exists>d. decompose_scalar_digit s num width = Some d \<and>
             unat d = (fr_value s div 2 ^ (num * width)) mod 2 ^ width"
proof -
  let ?x = "take_bit width (drop_bit (num * width) (fr_value s))"
  have "?x < 2 ^ width" by simp
  also have "(2::nat) ^ width \<le> 2 ^ 31" using w by (intro power_increasing) simp_all
  finally have "?x < 2 ^ 64" by simp
  then have "unat (word_of_nat ?x :: 64 word) = ?x"
    by (simp add: unat_of_nat take_bit_nat_eq_self)
  then show ?thesis
    using decompose_scalar_digit_word [OF w p, of s]
    by (simp add: take_bit_eq_mod drop_bit_eq_div)
qed

lemma digits_sum:
  "(\<Sum>i < n. ((v :: nat) div 2 ^ (c * i)) mod 2 ^ c * 2 ^ (c * i)) = v mod 2 ^ (c * n)"
proof (induction n)
  case 0
  then show ?case by simp
next
  case (Suc n)
  have "v mod 2 ^ (c * Suc n) = v mod (2 ^ (c * n) * 2 ^ c)"
    by (simp add: power_add mult.commute)
  also have "\<dots> = 2 ^ (c * n) * (v div 2 ^ (c * n) mod 2 ^ c) + v mod 2 ^ (c * n)"
    by (rule mod_mult2_eq)
  finally show ?case using Suc by (simp add: mult.commute)
qed

text \<open>
  C6, amended. For a window width \<open>c \<le> 31\<close>, a module count whose last window still starts
  inside the 256 bits of the limbs, and a scalar whose value is below
  \<open>2 ^ (c * num_bucket_modules)\<close>: every call of \<^verbatim>\<open>decompose_scalar_digit\<close> returns a digit, each
  digit is below \<open>2 ^ c\<close>, and \<open>\<Sum>\<^sub>i digit\<^sub>i * 2 ^ (c * i)\<close> is the scalar.
\<close>

theorem decompose_scalar_digit_recombine:
  assumes c: "c \<le> 31"
    and top: "(num_bucket_modules - 1) * c < 256"
    and v: "fr_value s < 2 ^ (c * num_bucket_modules)"
  shows "\<exists>ds. map (\<lambda>i. decompose_scalar_digit s i c) [0 ..< num_bucket_modules] = map Some ds
              \<and> (\<forall>d \<in> set ds. unat d < 2 ^ c)
              \<and> recombine c ds = fr_value s"
proof -
  define dg :: "nat \<Rightarrow> 64 word"
    where "dg i = word_of_nat (take_bit c (drop_bit (i * c) (fr_value s)))" for i
  define ds where "ds = map dg [0 ..< num_bucket_modules]"
  have inr: "i * c < 256" if "i < num_bucket_modules" for i
  proof -
    from that have "i \<le> num_bucket_modules - 1" by simp
    then have "i * c \<le> (num_bucket_modules - 1) * c" by (rule mult_le_mono1)
    then show ?thesis using top by (rule le_less_trans)
  qed
  have un: "unat (dg i) = (fr_value s div 2 ^ (c * i)) mod 2 ^ c" for i
  proof -
    let ?x = "take_bit c (drop_bit (i * c) (fr_value s))"
    have "?x < 2 ^ c" by simp
    also have "(2::nat) ^ c \<le> 2 ^ 31" using c by (intro power_increasing) simp_all
    finally have "?x < 2 ^ 64" by simp
    then have "unat (word_of_nat ?x :: 64 word) = ?x"
      by (simp add: unat_of_nat take_bit_nat_eq_self)
    then show ?thesis
      by (simp add: dg_def take_bit_eq_mod drop_bit_eq_div mult.commute)
  qed
  have 1: "map (\<lambda>i. decompose_scalar_digit s i c) [0 ..< num_bucket_modules] = map Some ds"
    unfolding ds_def map_map
    by (rule map_cong [OF refl]) (simp add: decompose_scalar_digit_word [OF c inr] dg_def)
  have 2: "\<forall>d \<in> set ds. unat d < 2 ^ c"
    by (auto simp add: ds_def un)
  have "recombine c ds = (\<Sum>i < num_bucket_modules. (fr_value s div 2 ^ (c * i)) mod 2 ^ c * 2 ^ (c * i))"
    unfolding recombine_def ds_def
    by (rule sum.cong) (simp_all add: un)
  also have "\<dots> = fr_value s mod 2 ^ (c * num_bucket_modules)"
    by (rule digits_sum)
  also have "\<dots> = fr_value s" using v by simp
  finally have 3: "recombine c ds = fr_value s" .
  from 1 2 3 show ?thesis by blast
qed

text \<open>
  The theorem at \<open>c = 10\<close> with 26 modules and the largest element of the scalar field,
  \<open>r - 1\<close>.
\<close>

theorem decompose_scalar_digit_recombine_witness:
  "(10 :: nat) \<le> 31 \<and> (26 - 1) * 10 < (256 :: nat)
   \<and> fr_value (Fr 0x43e1f593f0000000 0x2833e84879b97091 0xb85045b68181585d 0x30644e72e131a029) < 2 ^ (10 * 26)
   \<and> (\<exists>ds. map (\<lambda>i. decompose_scalar_digit
                        (Fr 0x43e1f593f0000000 0x2833e84879b97091 0xb85045b68181585d 0x30644e72e131a029) i 10)
                [0 ..< 26] = map Some ds
            \<and> (\<forall>d \<in> set ds. unat d < 2 ^ 10)
            \<and> recombine 10 ds
                = fr_value (Fr 0x43e1f593f0000000 0x2833e84879b97091 0xb85045b68181585d 0x30644e72e131a029))"
proof -
  have a: "(10 :: nat) \<le> 31" by simp
  have b: "(26 - 1) * 10 < (256 :: nat)" by simp
  have v: "fr_value (Fr 0x43e1f593f0000000 0x2833e84879b97091 0xb85045b68181585d 0x30644e72e131a029) < 2 ^ (10 * 26)"
    by (simp add: fr_value_def)
  from decompose_scalar_digit_recombine [OF a b v] a b v show ?thesis by blast
qed

text \<open>
  C6 as stated fails. At \<open>c = 32\<close> with 8 modules the mask \<^verbatim>\<open>(1 << width) - 1\<close> no longer
  cuts the digit: the digit of window 0 of the scalar \<open>2 ^ 32\<close> is \<open>2 ^ 32\<close> itself. At
  \<open>c = 10\<close> with 30 modules, window 26 starts at bit 260 and the function reads
  \<^verbatim>\<open>scalar.data[4]\<close>.
\<close>

theorem decompose_scalar_digit_counterexample:
  "254 \<le> (32 :: nat) * 8
   \<and> fr_value (Fr 0x100000000 0 0 0) < 2 ^ (32 * 8)
   \<and> decompose_scalar_digit (Fr 0x100000000 0 0 0) 0 32 = Some 0x100000000
   \<and> \<not> unat (0x100000000 :: 64 word) < 2 ^ 32
   \<and> 254 \<le> (10 :: nat) * 30
   \<and> fr_value (Fr 1 0 0 0) < 2 ^ (10 * 30)
   \<and> decompose_scalar_digit (Fr 1 0 0 0) 26 10 = None"
  by (simp add: decompose_scalar_digit_def data_def digit_mask_big fr_value_def)


section \<open>The double-and-add loops\<close>

lemma ref_curve_simps:
  "zero_element ref_curve = \<lparr>X = 0, Y = 0, Z = 0\<rparr>"
  "is_zero_element ref_curve p \<longleftrightarrow> X p = 0 \<and> Y p = 0 \<and> Z p = 0"
  "add ref_curve = ref_add"
  "doubling ref_curve = ref_doubling"
  by (simp_all add: ref_curve_def zero_element_def is_zero_element_def)

lemma bit_loop_no_bits:
  "(\<And>j. j < n \<Longrightarrow> \<not> bit w j) \<Longrightarrow> bit_loop C w Q n R = (doubling C ^^ (n - 1)) R"
proof (induction n arbitrary: R)
  case 0
  then show ?case by simp
next
  case (Suc n)
  have nb: "\<not> bit w n" using Suc.prems by simp
  have IH: "\<And>R. bit_loop C w Q n R = (doubling C ^^ (n - 1)) R"
    using Suc.prems by (intro Suc.IH) simp
  show ?case
  proof (cases n)
    case 0
    then show ?thesis using nb by (simp add: bit_drop_bit_eq)
  next
    case (Suc m)
    then show ?thesis using nb IH by (simp add: bit_drop_bit_eq funpow_swap1)
  qed
qed

lemma bit_loop_one_bit:
  assumes "k < n" and "\<And>j. j < n \<Longrightarrow> bit w j \<longleftrightarrow> j = k"
  shows "bit_loop C w Q n R = (doubling C ^^ k) (add C Q ((doubling C ^^ (n - 1 - k)) R))"
  using assms
proof (induction n arbitrary: R)
  case 0
  then show ?case by simp
next
  case (Suc n)
  show ?case
  proof (cases "k = n")
    case True
    have nb: "\<And>j. j < n \<Longrightarrow> \<not> bit w j" using Suc.prems(2) True by auto
    have b: "bit w n" using Suc.prems(2) True by auto
    show ?thesis
      using True b bit_loop_no_bits [of n w C Q, OF nb]
      by (cases n) (simp_all add: bit_drop_bit_eq funpow_swap1)
  next
    case False
    then have kn: "k < n" using Suc.prems(1) by simp
    have nb: "\<not> bit w n" using Suc.prems(2) False by auto
    have IH: "\<And>R. bit_loop C w Q n R = (doubling C ^^ k) (add C Q ((doubling C ^^ (n - 1 - k)) R))"
      using Suc.prems(2) by (intro Suc.IH [OF kn]) simp
    have n0: "n \<noteq> 0" using kn by simp
    have e: "n - k = Suc (n - 1 - k)" using kn by simp
    have "(doubling C ^^ (n - 1 - k)) (doubling C R) = (doubling C ^^ (n - k)) R"
      unfolding e by (simp add: funpow_swap1)
    then show ?thesis
      using nb n0 IH by (simp add: bit_drop_bit_eq)
  qed
qed

lemma bit_loop_zero: "bit_loop C 0 Q 65 R = (doubling C ^^ 64) R"
  using bit_loop_no_bits [of 65 0 C Q R] by simp

lemma bit_loop_1024: "bit_loop C 1024 Q 65 R = (doubling C ^^ 10) (add C Q ((doubling C ^^ 54) R))"
proof -
  have b: "bit ((2 :: 64 word) ^ 10) j \<longleftrightarrow> j = 10" for j
    by (simp only: bit_exp_iff) auto
  have "bit_loop C (2 ^ 10) Q 65 R = (doubling C ^^ 10) (add C Q ((doubling C ^^ (65 - 1 - 10)) R))"
  proof (rule bit_loop_one_bit)
    show "(10 :: nat) < 65" by simp
    show "bit ((2 :: 64 word) ^ 10) j \<longleftrightarrow> j = 10" for j by (rule b)
  qed
  then show ?thesis by simp
qed

lemma bit_loop_1: "bit_loop C 1 Q 65 R = add C Q ((doubling C ^^ 64) R)"
proof -
  have "bit_loop C 1 Q 65 R = (doubling C ^^ 0) (add C Q ((doubling C ^^ (65 - 1 - 0)) R))"
    by (rule bit_loop_one_bit) (auto simp add: bit_1_iff)
  then show ?thesis by simp
qed

lemma limb_loop_exponent:
  "limb_loop C exponent Q R = (doubling C ^^ 10) (add C Q ((doubling C ^^ 246) R))"
proof -
  have "(doubling C ^^ 54) ((doubling C ^^ 64) ((doubling C ^^ 64) ((doubling C ^^ 64) R)))
          = (doubling C ^^ (54 + 64 + 64 + 64)) R"
    by (simp only: funpow_add o_apply)
  then show ?thesis
    by (simp add: limb_loop_def exponent_def bit_loop_zero bit_loop_1024)
qed

lemma limb_loop_one:
  "limb_loop C (Fr 1 0 0 0) Q R = add C Q ((doubling C ^^ 256) R)"
proof -
  have "(doubling C ^^ 64) ((doubling C ^^ 64) ((doubling C ^^ 64) ((doubling C ^^ 64) R)))
          = (doubling C ^^ (64 + 64 + 64 + 64)) R"
    by (simp only: funpow_add o_apply)
  then show ?thesis
    by (simp add: limb_loop_def bit_loop_zero bit_loop_1)
qed

section \<open>The reference arithmetic\<close>

lemma ref_doubling_zero: "(ref_doubling ^^ n) \<lparr>X = 0, Y = 0, Z = 0\<rparr> = \<lparr>X = 0, Y = 0, Z = 0\<rparr>"
  by (induction n) (simp_all add: ref_doubling_def)

lemma ref_doubling_point: "k \<noteq> 0 \<Longrightarrow> (ref_doubling ^^ n) (ref_point k) = ref_point (2 ^ n * k)"
  by (induction n) (simp_all add: ref_doubling_def ref_point_def ref_val_def)

lemma ref_add_zero: "k \<noteq> 0 \<Longrightarrow> ref_add (ref_point k) \<lparr>X = 0, Y = 0, Z = 0\<rparr> = ref_point k"
  by (simp add: ref_add_def ref_val_def ref_point_def)

lemma ref_add_zero_zero: "ref_add \<lparr>X = 0, Y = 0, Z = 0\<rparr> \<lparr>X = 0, Y = 0, Z = 0\<rparr> = \<lparr>X = 0, Y = 0, Z = 0\<rparr>"
  by (simp add: ref_add_def)


lemma ref_contract: "curve_contract ref_curve ref_val"
  unfolding curve_contract_def ref_curve_simps
  by (auto simp add: ref_val_def ref_add_def ref_doubling_def ref_point_def)

section \<open>Final accumulation under the contract\<close>

lemma scalar_mul_zero: "scalar_mul n (0 :: 'g::ab_group_add) = 0"
  by (induction n) simp_all

lemma scalar_mul_add: "scalar_mul n (g + h) = scalar_mul n g + scalar_mul n (h :: 'g::ab_group_add)"
  by (induction n) (simp_all add: algebra_simps)

lemma scalar_mul_plus: "scalar_mul (m + n) g = scalar_mul m g + scalar_mul n (g :: 'g::ab_group_add)"
  by (induction m) (simp_all add: algebra_simps)

lemma scalar_mul_mult: "scalar_mul (m * n) g = scalar_mul m (scalar_mul n (g :: 'g::ab_group_add))"
  by (induction m) (simp_all add: scalar_mul_plus)

lemma scalar_mul_int: "scalar_mul n (k :: int) = int n * k"
  by (induction n) (simp_all add: algebra_simps)

lemma contract_doubling_pow:
  assumes "curve_contract C val"
  shows "val ((doubling C ^^ n) p) = scalar_mul (2 ^ n) (val p)"
proof (induction n)
  case 0
  then show ?case by simp
next
  case (Suc n)
  have "val (doubling C ((doubling C ^^ n) p)) = val ((doubling C ^^ n) p) + val ((doubling C ^^ n) p)"
    using assms by (simp add: curve_contract_def)
  also have "\<dots> = scalar_mul (2 ^ n + 2 ^ n) (val p)"
    by (simp add: Suc.IH scalar_mul_plus)
  finally show ?case by (simp add: mult_2)
qed

lemma contract_guarded_add:
  assumes "curve_contract C val"
  shows "val (if is_zero_element C (add C a b) then doubling C a else add C a b) = val a + val b"
  using assms by (auto simp add: curve_contract_def)

lemma contract_add_identity:
  assumes "curve_contract C val" and "val b = 0"
  shows "val (add C a b) = val a"
proof (cases "is_zero_element C (add C a b)")
  case True
  with assms have "val a = val b" and "val (add C a b) = 0"
    by (auto simp add: curve_contract_def)
  with assms(2) show ?thesis by simp
next
  case False
  with assms show ?thesis by (simp add: curve_contract_def)
qed

lemma contract_limb_loop_exponent:
  assumes "curve_contract C val"
  shows "val (limb_loop C exponent Q (zero_element C)) = scalar_mul 1024 (val Q)"
proof -
  have z: "val ((doubling C ^^ 246) (zero_element C)) = 0"
    using assms by (simp add: contract_doubling_pow [OF assms] curve_contract_def scalar_mul_zero)
  show ?thesis
    unfolding limb_loop_exponent contract_doubling_pow [OF assms]
    by (simp add: contract_add_identity [OF assms z])
qed

lemma contract_final_accumulation_loop:
  assumes "curve_contract C val" and "z \<le> length final_sum"
  shows "\<exists>r. final_accumulation_loop C final_sum z final_result = Some r
             \<and> val r = scalar_mul (2 ^ (10 * z)) (val final_result)
                        + (\<Sum>i < z. scalar_mul (2 ^ (10 * i)) (val (final_sum ! i)))"
  using assms(2)
proof (induction z arbitrary: final_result)
  case 0
  then show ?case by simp
next
  case (Suc z)
  define R where "R = limb_loop C exponent final_result (zero_element C)"
  define fr where "fr = (if is_zero_element C (add C R (final_sum ! z)) then doubling C R
                         else add C R (final_sum ! z))"
  have vfr: "val fr = scalar_mul 1024 (val final_result) + val (final_sum ! z)"
    unfolding fr_def contract_guarded_add [OF assms(1)] R_def
    by (simp add: contract_limb_loop_exponent [OF assms(1)])
  have zl: "z \<le> length final_sum" and zr: "read final_sum z = Some (final_sum ! z)"
    using Suc.prems by (simp_all add: read_def)
  from Suc.IH [OF zl, of fr] obtain r where
    r: "final_accumulation_loop C final_sum z fr = Some r"
    and vr: "val r = scalar_mul (2 ^ (10 * z)) (val fr)
                     + (\<Sum>i < z. scalar_mul (2 ^ (10 * i)) (val (final_sum ! i)))"
    by blast
  have step: "final_accumulation_loop C final_sum (Suc z) final_result = Some r"
    using r unfolding fr_def R_def by (simp add: zr Let_def)
  have p: "(2 :: nat) ^ (10 * Suc z) = 2 ^ (10 * z) * 1024" by (simp add: power_add)
  have "val r = scalar_mul (2 ^ (10 * Suc z)) (val final_result)
                + (\<Sum>i < Suc z. scalar_mul (2 ^ (10 * i)) (val (final_sum ! i)))"
    unfolding vr vfr p scalar_mul_add scalar_mul_mult
    by (simp add: algebra_simps)
  with step show ?case by blast
qed

lemma final_accumulation_kernel_val:
  assumes "curve_contract C val" and "26 \<le> length final_sum"
  shows "\<exists>r. final_accumulation_kernel C final_sum num_bucket_modules c = Some r
             \<and> val r = (\<Sum>i < 26. scalar_mul (2 ^ (10 * i)) (val (final_sum ! i)))"
proof -
  have "val (zero_element C) = 0" using assms(1) by (simp add: curve_contract_def)
  then show ?thesis
    using contract_final_accumulation_loop [OF assms, of "zero_element C"]
    by (simp add: final_accumulation_kernel_def scalar_mul_zero)
qed

text \<open>The kernel reads \<^verbatim>\<open>final_sum[25]\<close> down to \<^verbatim>\<open>final_sum[0]\<close>, whatever the arguments are.\<close>

lemma final_accumulation_loop_None:
  "final_accumulation_loop C final_sum z final_result = None \<longleftrightarrow> length final_sum < z"
  by (induction z arbitrary: final_result) (auto simp add: read_def Let_def)

lemma final_accumulation_kernel_None:
  "final_accumulation_kernel C final_sum num_bucket_modules c = None \<longleftrightarrow> length final_sum < 26"
  by (simp add: final_accumulation_kernel_def final_accumulation_loop_None)

section \<open>Evaluating the kernels on the reference arithmetic\<close>

lemma ref_add_point_zero: "ref_add \<lparr>X = 0, Y = 0, Z = 0\<rparr> (ref_point k) = (if k = 0 then \<lparr>X = 0, Y = 0, Z = 0\<rparr> else ref_point k)"
  by (simp add: ref_add_def ref_val_def ref_point_def)

lemma ref_point_not_zero: "ref_point k \<noteq> \<lparr>X = 0, Y = 0, Z = 0\<rparr>" 
  "X (ref_point k) = 0 \<longleftrightarrow> False"
  by (simp_all add: ref_point_def)

lemma final_accumulation_loop_numeral:
  "final_accumulation_loop C final_sum (numeral k) final_result =
     (case read final_sum (pred_numeral k) of
        None \<Rightarrow> None
      | Some m \<Rightarrow>
          final_accumulation_loop C final_sum (pred_numeral k)
            (if is_zero_element C (add C (limb_loop C exponent final_result (zero_element C)) m)
             then doubling C (limb_loop C exponent final_result (zero_element C))
             else add C (limb_loop C exponent final_result (zero_element C)) m))"
  by (simp add: numeral_eq_Suc Let_def split: option.splits)

lemma final_accumulation_loop_1:
  "final_accumulation_loop C final_sum 1 final_result =
     (case read final_sum 0 of
        None \<Rightarrow> None
      | Some m \<Rightarrow>
          Some (if is_zero_element C (add C (limb_loop C exponent final_result (zero_element C)) m)
                then doubling C (limb_loop C exponent final_result (zero_element C))
                else add C (limb_loop C exponent final_result (zero_element C)) m))"
  using final_accumulation_loop.simps(2) [of C final_sum 0 final_result]
  by (simp add: Let_def del: final_accumulation_loop.simps(2) split: option.splits)

lemma ref_limb_loop_exponent_zero:
  "limb_loop ref_curve exponent \<lparr>X = 0, Y = 0, Z = 0\<rparr> \<lparr>X = 0, Y = 0, Z = 0\<rparr> = \<lparr>X = 0, Y = 0, Z = 0\<rparr>"
  by (simp only: limb_loop_exponent ref_curve_simps ref_doubling_zero ref_add_zero_zero)

lemma ref_limb_loop_exponent_point:
  "k \<noteq> 0 \<Longrightarrow> limb_loop ref_curve exponent (ref_point k) \<lparr>X = 0, Y = 0, Z = 0\<rparr> = ref_point (1024 * k)"
  unfolding limb_loop_exponent ref_curve_simps ref_doubling_zero
  by (simp add: ref_add_zero ref_doubling_point del: funpow.simps)

lemma ref_add_points:
  "ref_add (ref_point j) (ref_point k) = (if j = k then \<lparr>X = 0, Y = 0, Z = 0\<rparr> else ref_point (j + k))"
  by (simp add: ref_add_def ref_val_def ref_point_def)

lemma ref_doubling_simps:
  "ref_doubling \<lparr>X = 0, Y = 0, Z = 0\<rparr> = \<lparr>X = 0, Y = 0, Z = 0\<rparr>"
  "k \<noteq> 0 \<Longrightarrow> ref_doubling (ref_point k) = ref_point (2 * k)"
  by (simp_all add: ref_doubling_def ref_point_def ref_val_def)

lemmas ref_eval = read_def ref_limb_loop_exponent_zero ref_limb_loop_exponent_point ref_curve_simps
     ref_doubling_zero ref_add_zero ref_add_zero_zero ref_add_point_zero ref_point_not_zero
     ref_doubling_simps ref_add_points nth_append Let_def

lemma running_sum_loop_numeral:
  "running_sum_loop C buckets base (numeral k) st =
     (case read buckets ((base + Suc (pred_numeral k)) mod 2 ^ 32) of
        None \<Rightarrow> None
      | Some b \<Rightarrow>
          running_sum_loop C buckets base (pred_numeral k)
            (add C b (fst st),
             if is_zero_element C (add C (add C b (fst st)) (snd st))
             then doubling C (add C b (fst st))
             else add C (add C b (fst st)) (snd st)))"
  by (subst numeral_eq_Suc) (simp add: Let_def split: option.splits)

lemma running_sum_loop_1:
  "running_sum_loop C buckets base 1 st =
     (case read buckets ((base + 1) mod 2 ^ 32) of
        None \<Rightarrow> None
      | Some b \<Rightarrow>
          Some (add C b (fst st),
                if is_zero_element C (add C (add C b (fst st)) (snd st))
                then doubling C (add C b (fst st))
                else add C (add C b (fst st)) (snd st)))"
  using running_sum_loop.simps(2) [of C buckets base 0 st]
  by (simp add: Let_def del: running_sum_loop.simps(2) split: option.splits)

lemma running_sum_2_loop_numeral:
  "running_sum_2_loop C buckets base (numeral k) st =
     (case read buckets ((base + pred_numeral k) mod 2 ^ 32) of
        None \<Rightarrow> None
      | Some b \<Rightarrow>
          running_sum_2_loop C buckets base (pred_numeral k)
            (add C (fst st) b,
             if is_zero_element C (add C (fst st) (snd st)) then doubling C (fst st)
             else add C (fst st) (snd st)))"
  by (subst numeral_eq_Suc) (simp add: Let_def split: option.splits)

lemma running_sum_2_loop_1:
  "running_sum_2_loop C buckets base 1 st =
     (case read buckets (base mod 2 ^ 32) of
        None \<Rightarrow> None
      | Some b \<Rightarrow>
          Some (add C (fst st) b,
                if is_zero_element C (add C (fst st) (snd st)) then doubling C (fst st)
                else add C (fst st) (snd st)))"
  using running_sum_2_loop.simps(2) [of C buckets base 0 st]
  by (simp add: Let_def del: running_sum_2_loop.simps(2) split: option.splits)

section \<open>The bucket method on one point\<close>

lemma those_map_Some: "those (map Some xs) = Some xs"
  by (induction xs) simp_all

lemma split_scalars_kernel_Some:
  assumes c: "c \<le> 31" and top: "(num_bucket_modules - 1) * c < 256"
    and n: "npoints \<le> length scalars"
  shows "\<exists>bucket_indices. split_scalars_kernel scalars npoints num_bucket_modules c
           = Some (bucket_indices, concat (map (\<lambda>i. [0 ..< npoints]) [0 ..< num_bucket_modules]))"
proof -
  have inr: "i * c < 256" if "i < num_bucket_modules" for i
  proof -
    from that have "i \<le> num_bucket_modules - 1" by simp
    then have "i * c \<le> (num_bucket_modules - 1) * c" by (rule mult_le_mono1)
    then show ?thesis using top by (rule le_less_trans)
  qed
  define key where "key i tid = push_bit c (word_of_nat i :: 32 word)
      OR ucast (word_of_nat (take_bit c (drop_bit (i * c) (fr_value (scalars ! tid)))) :: 64 word)" for i tid
  have k: "split_key scalars c i tid = Some (key i tid)"
    if "i < num_bucket_modules" "tid < npoints" for i tid
    using that n
    by (simp add: split_key_def read_def decompose_scalar_digit_word [OF c inr] key_def)
  have "concat (map (\<lambda>i. map (\<lambda>tid. split_key scalars c i tid) [0 ..< npoints]) [0 ..< num_bucket_modules])
        = map Some (concat (map (\<lambda>i. map (\<lambda>tid. key i tid) [0 ..< npoints]) [0 ..< num_bucket_modules]))"
    unfolding map_concat map_map
    by (intro arg_cong [where f = concat] map_cong refl) (simp add: k)
  then show ?thesis
    by (simp add: split_scalars_kernel_def those_map_Some)
qed

lemma running_sum_loop_zero:
  assumes "base + i < N" and "base + i < 2 ^ 32"
  shows "running_sum_loop ref_curve (replicate N \<lparr>X = 0, Y = 0, Z = 0\<rparr>) base i
           (\<lparr>X = 0, Y = 0, Z = 0\<rparr>, \<lparr>X = 0, Y = 0, Z = 0\<rparr>)
         = Some (\<lparr>X = 0, Y = 0, Z = 0\<rparr>, \<lparr>X = 0, Y = 0, Z = 0\<rparr>)"
  using assms
  by (induction i) (simp_all add: read_def ref_curve_simps ref_add_zero_zero ref_doubling_simps Let_def)

lemma bucket_running_sum_kernel_zero:
  assumes "m < 26"
  shows "bucket_running_sum_kernel ref_curve (replicate (26 * 2 ^ 10) \<lparr>X = 0, Y = 0, Z = 0\<rparr>) 10 m
           = Some \<lparr>X = 0, Y = 0, Z = 0\<rparr>"
proof -
  have a: "(m + 1) * 2 ^ 10 \<le> (26 :: nat) * 2 ^ 10" using assms by simp
  have b: "m * 1024 + 1022 < 26624" using assms by simp
  show ?thesis
    using a assms running_sum_loop_zero [of "m * 1024" 1022 26624]
    by (simp add: bucket_running_sum_kernel_def read_def)
qed

lemma bucket_running_sum_kernel_zero_4:
  assumes "m < 64"
  shows "bucket_running_sum_kernel ref_curve (replicate (64 * 2 ^ 4) \<lparr>X = 0, Y = 0, Z = 0\<rparr>) 4 m
           = Some \<lparr>X = 0, Y = 0, Z = 0\<rparr>"
proof -
  have a: "(m + 1) * 2 ^ 4 \<le> (64 :: nat) * 2 ^ 4" using assms by simp
  have b: "m * 16 + 14 < 1024" using assms by simp
  show ?thesis
    using a assms running_sum_loop_zero [of "m * 16" 14 1024]
    by (simp add: bucket_running_sum_kernel_def read_def)
qed

lemma bucket_running_sum_kernel_zero_16:
  assumes "m < 16"
  shows "bucket_running_sum_kernel ref_curve (replicate (16 * 2 ^ 16) \<lparr>X = 0, Y = 0, Z = 0\<rparr>) 16 m
           = Some \<lparr>X = 0, Y = 0, Z = 0\<rparr>"
proof -
  have a: "(m + 1) * 2 ^ 16 \<le> (16 :: nat) * 2 ^ 16" using assms by simp
  have b: "m * 65536 + 65534 < 1048576" using assms by simp
  show ?thesis
    using a assms running_sum_loop_zero [of "m * 65536" 65534 1048576]
    by (simp add: bucket_running_sum_kernel_def read_def)
qed

lemma those_length: "those xs = Some ys \<Longrightarrow> length ys = length xs"
  by (induction xs arbitrary: ys) (auto split: option.splits)

lemma accumulate_buckets_fold:
  assumes "\<forall>slot \<in> set slots. slot < length single_bucket_indices \<and> slot < length bucket_sizes
              \<and> slot < length bucket_offsets"
    and "8 \<le> length buckets0"
  shows "fold (\<lambda>slot acc. Option.bind acc (\<lambda>buckets.
             accumulate_buckets_kernel C buckets bucket_offsets bucket_sizes
               single_bucket_indices point_indices points num_buckets zero_element' slot))
           slots (Some buckets0) = Some buckets0"
  using assms
  by (induction slots) (simp_all add: accumulate_buckets_kernel_def read_def Let_def)

lemma accumulate_buckets_unchanged:
  assumes "length bucket_sizes = length single_bucket_indices"
    and "length bucket_offsets = length single_bucket_indices"
    and "8 \<le> length buckets0"
  shows "accumulate_buckets C buckets0 bucket_offsets bucket_sizes single_bucket_indices
           point_indices points num_buckets zero_element' = Some buckets0"
  unfolding accumulate_buckets_def
  by (rule accumulate_buckets_fold) (use assms in simp_all)

section \<open>Claims\<close>

subsection \<open>Bucket method against the naive kernel\<close>

text \<open>
  C1. One point \<open>P\<close> (the generator) with scalar 1, window width 10, 26 modules, all buckets
  zero at the start, and the sorter's output for this input: 26 buckets of size 1 (digit 1
  of module 0 and digit 0 of every other module), all holding point 0. The bucket method
  returns the all-zero point; the naive kernel returns \<open>P\<close>. The accumulator never reads
  the points, so the result of the bucket method is the same for any two point arrays,
  whatever the sorter, the initial buckets and the window width are.
\<close>

theorem msm_bucket_method_ignores_points:
  "msm_bucket_method ref_curve
       (\<lambda>bucket_indices point_indices.
          ([0 ..< 26], replicate 26 1, 1 # map (\<lambda>i. i * 2 ^ 10) [1 ..< 26], replicate 26 0))
       \<lparr>X = 0, Y = 0, Z = 0\<rparr> (replicate (26 * 2 ^ 10) \<lparr>X = 0, Y = 0, Z = 0\<rparr>) 10 26
       [Fr 1 0 0 0] [ref_point 1]
     = Some \<lparr>X = 0, Y = 0, Z = 0\<rparr>
   \<and> double_and_add_kernel ref_curve [Fr 1 0 0 0] [ref_point 1] 1 = Some (ref_point 1)
   \<and> msm_bucket_method C sorter zero_element' buckets0 c num_bucket_modules scalars points
       = msm_bucket_method C sorter zero_element' buckets0 c num_bucket_modules scalars points'"
proof -
  obtain bi where s: "split_scalars_kernel [Fr 1 0 0 0] (length [Fr 1 0 0 0]) 26 10
           = Some (bi, concat (map (\<lambda>i. [0 ..< length [Fr 1 0 0 0]]) [0 ..< 26]))"
    using split_scalars_kernel_Some [of 10 26 "length [Fr 1 0 0 0]" "[Fr 1 0 0 0]"] by auto
  have acc: "accumulate_buckets ref_curve (replicate (26 * 2 ^ 10) \<lparr>X = 0, Y = 0, Z = 0\<rparr>)
               [0 ..< 26] (replicate 26 1) (1 # map (\<lambda>i. i * 2 ^ 10) [1 ..< 26]) (replicate 26 0)
               [ref_point 1] (length (1 # map (\<lambda>i. i * 2 ^ 10) [1 ..< 26])) \<lparr>X = 0, Y = 0, Z = 0\<rparr>
             = Some (replicate (26 * 2 ^ 10) \<lparr>X = 0, Y = 0, Z = 0\<rparr>)"
    by (rule accumulate_buckets_unchanged) simp_all
  have "map (bucket_running_sum_kernel ref_curve (replicate (26 * 2 ^ 10) \<lparr>X = 0, Y = 0, Z = 0\<rparr>) 10) [0 ..< 26]
          = map (\<lambda>m. Some \<lparr>X = 0, Y = 0, Z = 0\<rparr>) [0 ..< 26]"
    by (rule map_cong [OF refl]) (use bucket_running_sum_kernel_zero in simp)
  also have "\<dots> = map Some (replicate 26 \<lparr>X = 0, Y = 0, Z = 0\<rparr>)"
    by (simp add: map_replicate_const)
  finally have rs: "those (map (bucket_running_sum_kernel ref_curve
                      (replicate (26 * 2 ^ 10) \<lparr>X = 0, Y = 0, Z = 0\<rparr>) 10) [0 ..< 26])
                    = Some (replicate 26 \<lparr>X = 0, Y = 0, Z = 0\<rparr>)"
    by (simp only: those_map_Some)
  have fin: "final_accumulation_kernel ref_curve (replicate 26 \<lparr>X = 0, Y = 0, Z = 0\<rparr>) 26 10
               = Some \<lparr>X = 0, Y = 0, Z = 0\<rparr>"
    by (simp add: final_accumulation_kernel_def final_accumulation_loop_numeral
          final_accumulation_loop_1 ref_eval)
  have pipeline: "msm_bucket_method ref_curve
       (\<lambda>bucket_indices point_indices.
          ([0 ..< 26], replicate 26 1, 1 # map (\<lambda>i. i * 2 ^ 10) [1 ..< 26], replicate 26 0))
       \<lparr>X = 0, Y = 0, Z = 0\<rparr> (replicate (26 * 2 ^ 10) \<lparr>X = 0, Y = 0, Z = 0\<rparr>) 10 26
       [Fr 1 0 0 0] [ref_point 1]
     = Some \<lparr>X = 0, Y = 0, Z = 0\<rparr>"
    unfolding msm_bucket_method_def s
    by (simp only: option.case prod.case acc rs fin)
  have naive: "double_and_add_kernel ref_curve [Fr 1 0 0 0] [ref_point 1] 1 = Some (ref_point 1)"
    by (simp add: double_and_add_kernel_def double_and_add_step_def limb_loop_one ref_eval)
  have e: "accumulate_buckets C buckets0 bucket_offsets bucket_sizes single_bucket_indices
               point_indices points num_buckets zero_element'
           = accumulate_buckets C buckets0 bucket_offsets bucket_sizes single_bucket_indices
               point_indices points' num_buckets zero_element'"
    for bucket_offsets bucket_sizes single_bucket_indices point_indices num_buckets
    by (simp add: accumulate_buckets_def accumulate_buckets_kernel_def)
  have "msm_bucket_method C sorter zero_element' buckets0 c num_bucket_modules scalars points
     = msm_bucket_method C sorter zero_element' buckets0 c num_bucket_modules scalars points'"
    unfolding msm_bucket_method_def e by (rule refl)
  with pipeline naive show ?thesis by blast
qed

subsection \<open>Window width\<close>

text \<open>
  C2. The scalar 32 on one point \<open>P\<close> (the generator), all buckets zero at the start. With
  \<open>c = 4\<close> and its 64 modules, and the sorter's output for this input (64 buckets of size 1:
  digit 2 of module 1 and digit 0 of every other module), the bucket method returns the
  all-zero point. With \<open>c = 16\<close> and its 16 modules (16 buckets of size 1: digit 32 of
  module 0 and digit 0 of every other module) the decomposer and the accumulator have their
  results, the reducer yields 16 module sums, and the final accumulation reads
  \<^verbatim>\<open>final_sum[25]\<close>, outside them. So the bucket method has no result for \<open>c = 16\<close>, on this
  input and on every other, whatever the sorter and the buckets are.
\<close>

theorem msm_bucket_method_window_width:
  "msm_bucket_method ref_curve
       (\<lambda>bucket_indices point_indices.
          ([0 ..< 64], replicate 64 1, 0 # 18 # map (\<lambda>i. i * 2 ^ 4) [2 ..< 64], replicate 64 0))
       \<lparr>X = 0, Y = 0, Z = 0\<rparr> (replicate (64 * 2 ^ 4) \<lparr>X = 0, Y = 0, Z = 0\<rparr>) 4 64
       [Fr 32 0 0 0] [ref_point 1]
     = Some \<lparr>X = 0, Y = 0, Z = 0\<rparr>
   \<and> (\<exists>bucket_indices point_indices. split_scalars_kernel [Fr 32 0 0 0] 1 16 16
          = Some (bucket_indices, point_indices))
   \<and> accumulate_buckets ref_curve (replicate (16 * 2 ^ 16) \<lparr>X = 0, Y = 0, Z = 0\<rparr>)
         [0 ..< 16] (replicate 16 1) (32 # map (\<lambda>i. i * 2 ^ 16) [1 ..< 16]) (replicate 16 0)
         [ref_point 1] 16 \<lparr>X = 0, Y = 0, Z = 0\<rparr>
       = Some (replicate (16 * 2 ^ 16) \<lparr>X = 0, Y = 0, Z = 0\<rparr>)
   \<and> those (map (bucket_running_sum_kernel ref_curve
                    (replicate (16 * 2 ^ 16) \<lparr>X = 0, Y = 0, Z = 0\<rparr>) 16) [0 ..< 16])
       = Some (replicate 16 \<lparr>X = 0, Y = 0, Z = 0\<rparr>)
   \<and> final_accumulation_kernel ref_curve (replicate 16 \<lparr>X = 0, Y = 0, Z = 0\<rparr>) 16 16 = None
   \<and> msm_bucket_method C sorter zero_element' buckets0 16 16 scalars points = None"
proof -
  obtain bi where s: "split_scalars_kernel [Fr 32 0 0 0] (length [Fr 32 0 0 0]) 64 4
           = Some (bi, concat (map (\<lambda>i. [0 ..< length [Fr 32 0 0 0]]) [0 ..< 64]))"
    using split_scalars_kernel_Some [of 4 64 "length [Fr 32 0 0 0]" "[Fr 32 0 0 0]"] by auto
  have acc: "accumulate_buckets ref_curve (replicate (64 * 2 ^ 4) \<lparr>X = 0, Y = 0, Z = 0\<rparr>)
               [0 ..< 64] (replicate 64 1) (0 # 18 # map (\<lambda>i. i * 2 ^ 4) [2 ..< 64]) (replicate 64 0)
               [ref_point 1] (length (0 # 18 # map (\<lambda>i. i * 2 ^ 4) [2 ..< 64])) \<lparr>X = 0, Y = 0, Z = 0\<rparr>
             = Some (replicate (64 * 2 ^ 4) \<lparr>X = 0, Y = 0, Z = 0\<rparr>)"
    by (rule accumulate_buckets_unchanged) simp_all
  have "map (bucket_running_sum_kernel ref_curve (replicate (64 * 2 ^ 4) \<lparr>X = 0, Y = 0, Z = 0\<rparr>) 4) [0 ..< 64]
          = map (\<lambda>m. Some \<lparr>X = 0, Y = 0, Z = 0\<rparr>) [0 ..< 64]"
    by (rule map_cong [OF refl]) (use bucket_running_sum_kernel_zero_4 in simp)
  also have "\<dots> = map Some (replicate 64 \<lparr>X = 0, Y = 0, Z = 0\<rparr>)"
    by (simp add: map_replicate_const)
  finally have rs: "those (map (bucket_running_sum_kernel ref_curve
                      (replicate (64 * 2 ^ 4) \<lparr>X = 0, Y = 0, Z = 0\<rparr>) 4) [0 ..< 64])
                    = Some (replicate 64 \<lparr>X = 0, Y = 0, Z = 0\<rparr>)"
    by (simp only: those_map_Some)
  have fin: "final_accumulation_kernel ref_curve (replicate 64 \<lparr>X = 0, Y = 0, Z = 0\<rparr>) 64 4
               = Some \<lparr>X = 0, Y = 0, Z = 0\<rparr>"
    by (simp add: final_accumulation_kernel_def final_accumulation_loop_numeral
          final_accumulation_loop_1 ref_eval)
  have pipeline: "msm_bucket_method ref_curve
       (\<lambda>bucket_indices point_indices.
          ([0 ..< 64], replicate 64 1, 0 # 18 # map (\<lambda>i. i * 2 ^ 4) [2 ..< 64], replicate 64 0))
       \<lparr>X = 0, Y = 0, Z = 0\<rparr> (replicate (64 * 2 ^ 4) \<lparr>X = 0, Y = 0, Z = 0\<rparr>) 4 64
       [Fr 32 0 0 0] [ref_point 1]
     = Some \<lparr>X = 0, Y = 0, Z = 0\<rparr>"
    unfolding msm_bucket_method_def s
    by (simp only: option.case prod.case acc rs fin)
  have short: "final_accumulation_kernel C final_sum 16 16 = None"
    if "those (map f [0 ..< 16]) = Some final_sum" for f :: "nat \<Rightarrow> 'a element option" and final_sum
    using those_length [OF that] by (simp add: final_accumulation_kernel_None)
  have none: "msm_bucket_method C sorter zero_element' buckets0 16 16 scalars points = None"
    unfolding msm_bucket_method_def
    by (auto simp add: short split: option.splits prod.splits)
  have split16: "\<exists>bucket_indices point_indices. split_scalars_kernel [Fr 32 0 0 0] 1 16 16
        = Some (bucket_indices, point_indices)"
    using split_scalars_kernel_Some [of 16 16 1 "[Fr 32 0 0 0]"] by auto
  have acc16: "accumulate_buckets ref_curve (replicate (16 * 2 ^ 16) \<lparr>X = 0, Y = 0, Z = 0\<rparr>)
         [0 ..< 16] (replicate 16 1) (32 # map (\<lambda>i. i * 2 ^ 16) [1 ..< 16]) (replicate 16 0)
         [ref_point 1] 16 \<lparr>X = 0, Y = 0, Z = 0\<rparr>
       = Some (replicate (16 * 2 ^ 16) \<lparr>X = 0, Y = 0, Z = 0\<rparr>)"
    by (rule accumulate_buckets_unchanged) simp_all
  have "map (bucket_running_sum_kernel ref_curve (replicate (16 * 2 ^ 16) \<lparr>X = 0, Y = 0, Z = 0\<rparr>) 16) [0 ..< 16]
          = map (\<lambda>m. Some \<lparr>X = 0, Y = 0, Z = 0\<rparr>) [0 ..< 16]"
    by (rule map_cong [OF refl]) (use bucket_running_sum_kernel_zero_16 in simp)
  also have "\<dots> = map Some (replicate 16 \<lparr>X = 0, Y = 0, Z = 0\<rparr>)"
    by (simp add: map_replicate_const)
  finally have rs16: "those (map (bucket_running_sum_kernel ref_curve
                    (replicate (16 * 2 ^ 16) \<lparr>X = 0, Y = 0, Z = 0\<rparr>) 16) [0 ..< 16])
       = Some (replicate 16 \<lparr>X = 0, Y = 0, Z = 0\<rparr>)"
    by (simp only: those_map_Some)
  have fin16: "final_accumulation_kernel ref_curve (replicate 16 \<lparr>X = 0, Y = 0, Z = 0\<rparr>) 16 16 = None"
    by (simp add: final_accumulation_kernel_None)
  from pipeline split16 acc16 rs16 fin16 none show ?thesis by blast
qed

subsection \<open>Final accumulation\<close>

text \<open>
  C3. With \<open>c = 4\<close> and 64 contributions of which only module 1 is not the identity
  (it is \<open>P\<close>), the claim's sum \<open>\<Sum>\<^sub>i contribution\<^sub>i \<cdot> 2 ^ (4 * i)\<close> is \<open>16 \<cdot> P\<close>; the kernel
  returns \<open>1024 \<cdot> P\<close>. With \<open>c = 10\<close> and 27 contributions of which only module 26 is
  not the identity, the kernel returns the all-zero point: it never reads module 26.
\<close>

theorem final_accumulation_kernel_fixed_constants:
  "final_accumulation_kernel ref_curve
       ([\<lparr>X = 0, Y = 0, Z = 0\<rparr>, ref_point 1] @ replicate 62 \<lparr>X = 0, Y = 0, Z = 0\<rparr>) 64 4
     = Some (ref_point 1024)
   \<and> scalar_mul (2 ^ (4 * 1)) (ref_val (ref_point 1)) = 16
   \<and> final_accumulation_kernel ref_curve
         (replicate 26 \<lparr>X = 0, Y = 0, Z = 0\<rparr> @ [ref_point 1]) 27 10
       = Some \<lparr>X = 0, Y = 0, Z = 0\<rparr>"
proof -
  have "final_accumulation_kernel ref_curve
       ([\<lparr>X = 0, Y = 0, Z = 0\<rparr>, ref_point 1] @ replicate 62 \<lparr>X = 0, Y = 0, Z = 0\<rparr>) 64 4
     = Some (ref_point 1024)"
    by (simp add: final_accumulation_kernel_def final_accumulation_loop_numeral
          final_accumulation_loop_1 ref_eval)
  moreover have "scalar_mul (2 ^ (4 * 1)) (ref_val (ref_point 1)) = 16"
    by (simp add: scalar_mul_int ref_val_def ref_point_def)
  moreover have "final_accumulation_kernel ref_curve
         (replicate 26 \<lparr>X = 0, Y = 0, Z = 0\<rparr> @ [ref_point 1]) 27 10
       = Some \<lparr>X = 0, Y = 0, Z = 0\<rparr>"
    by (simp add: final_accumulation_kernel_def final_accumulation_loop_numeral
          final_accumulation_loop_1 ref_eval)
  ultimately show ?thesis by blast
qed

subsection \<open>Bucket accumulation\<close>

text \<open>
  C4. A worker of \<^verbatim>\<open>accumulate_buckets_kernel\<close> either reads outside an array or leaves
  every bucket as it was. For a bucket of size 1 that holds the point at index 0, the
  bucket's slot (index 3) is still the all-zero point afterwards, not that point. The
  second worker of \<^verbatim>\<open>initialize_buckets_kernel\<close> (lanes 4 to 7, slot 1) indexes limbs 4 to 7.
\<close>

theorem accumulate_buckets_kernel_stores_nothing:
  "(accumulate_buckets_kernel C buckets bucket_offsets bucket_sizes single_bucket_indices
        point_indices points num_buckets zero_element' slot = None
     \<or> accumulate_buckets_kernel C buckets bucket_offsets bucket_sizes single_bucket_indices
        point_indices points num_buckets zero_element' slot = Some buckets)
   \<and> accumulate_buckets_kernel ref_curve (replicate 8 \<lparr>X = 0, Y = 0, Z = 0\<rparr>) [0] [1] [3] [0]
         [ref_point 1] 8 zero_element' 0
       = Some (replicate 8 \<lparr>X = 0, Y = 0, Z = 0\<rparr>)
   \<and> initialize_buckets_kernel C bucket 4 1 = None"
  by (simp add: accumulate_buckets_kernel_def initialize_buckets_kernel_def read_def Let_def
        split: option.splits)

section \<open>The running sum under the contract\<close>

lemma scalar_mul_Suc_right: "scalar_mul (Suc n) g = scalar_mul n g + (g :: 'g::ab_group_add)"
  by (simp add: algebra_simps)

text \<open>
  The loop, when the addition is exact at every update of \<open>line_sum\<close>: the operands there
  are a bucket sum and a point that stands for the sum of the buckets above it.
\<close>

lemma running_sum_loop_val_gen:
  assumes ct: "curve_contract C val"
    and ex: "\<And>d L. 1 \<le> d \<Longrightarrow> d \<le> i \<Longrightarrow>
                val L = val (fst st) + (\<Sum>j = Suc d ..< Suc i. val (buckets ! (base + j))) \<Longrightarrow>
                val (add C (buckets ! (base + d)) L) = val (buckets ! (base + d)) + val L"
    and len: "base + i < length buckets" and w: "base + i < 2 ^ 32"
  shows "\<exists>L T. running_sum_loop C buckets base i st = Some (L, T)
           \<and> val T = val (snd st) + scalar_mul i (val (fst st))
                      + (\<Sum>d = 1 ..< Suc i. scalar_mul d (val (buckets ! (base + d))))"
  using ex len w
proof (induction i arbitrary: st)
  case 0
  then show ?case by (cases st) simp
next
  case (Suc i)
  define b where "b = buckets ! (base + Suc i)"
  define L1 where "L1 = add C b (fst st)"
  define T1 where "T1 = (if is_zero_element C (add C L1 (snd st)) then doubling C L1 else add C L1 (snd st))"
  have rd: "read buckets ((base + Suc i) mod 2 ^ 32) = Some b"
    using Suc.prems by (simp add: read_def b_def)
  have vL1: "val L1 = val b + val (fst st)"
    unfolding L1_def b_def by (rule Suc.prems(1)) simp_all
  have vT1: "val T1 = val L1 + val (snd st)"
    unfolding T1_def by (rule contract_guarded_add [OF ct])
  have ex': "val (add C (buckets ! (base + d)) L) = val (buckets ! (base + d)) + val L"
    if d: "1 \<le> d" "d \<le> i"
      and L: "val L = val (fst (L1, T1)) + (\<Sum>j = Suc d ..< Suc i. val (buckets ! (base + j)))"
    for d L
  proof (rule Suc.prems(1))
    show "1 \<le> d" "d \<le> Suc i" using d by simp_all
    have "(\<Sum>j = Suc d ..< Suc (Suc i). val (buckets ! (base + j)))
            = (\<Sum>j = Suc d ..< Suc i. val (buckets ! (base + j))) + val b"
      using d by (simp add: b_def)
    then show "val L = val (fst st) + (\<Sum>j = Suc d ..< Suc (Suc i). val (buckets ! (base + j)))"
      using L by (simp add: vL1 algebra_simps)
  qed
  have "base + i < length buckets" "base + i < 2 ^ 32" using Suc.prems by simp_all
  from Suc.IH [OF ex' this, of "(L1, T1)"] obtain L T where
    r: "running_sum_loop C buckets base i (L1, T1) = Some (L, T)"
    and v: "val T = val T1 + scalar_mul i (val L1)
                    + (\<Sum>d = 1 ..< Suc i. scalar_mul d (val (buckets ! (base + d))))"
    by auto
  have step: "running_sum_loop C buckets base (Suc i) st = Some (L, T)"
    using r rd unfolding L1_def T1_def b_def
    by (simp add: Let_def cong: if_cong)
  have "val T = val (snd st) + scalar_mul (Suc i) (val (fst st))
                + (\<Sum>d = 1 ..< Suc (Suc i). scalar_mul d (val (buckets ! (base + d))))"
    unfolding v vT1 vL1 scalar_mul_add b_def
    by (simp add: algebra_simps)
  with step show ?case by blast
qed

lemma bucket_running_sum_kernel_val_gen:
  assumes ct: "curve_contract C val"
    and c1: "1 \<le> c" and c30: "c \<le> 30"
    and rng: "(slot + 1) * 2 ^ c < 2 ^ 31"
    and len: "(slot + 1) * 2 ^ c \<le> length buckets"
    and ex: "\<And>d L. 1 \<le> d \<Longrightarrow> d < 2 ^ c - 1 \<Longrightarrow>
                val L = (\<Sum>j = Suc d ..< 2 ^ c. val (buckets ! (slot * 2 ^ c + j))) \<Longrightarrow>
                val (add C (buckets ! (slot * 2 ^ c + d)) L)
                  = val (buckets ! (slot * 2 ^ c + d)) + val L"
  shows "\<exists>r. bucket_running_sum_kernel C buckets c slot = Some r
             \<and> val r = (\<Sum>d = 1 ..< 2 ^ c. scalar_mul d (val (buckets ! (slot * 2 ^ c + d))))"
proof -
  define n :: nat where "n = 2 ^ c"
  have n2: "2 \<le> n"
    using c1 unfolding n_def by (metis power_increasing one_le_numeral power_one_right)
  have n30: "n \<le> 2 ^ 30"
    using c30 unfolding n_def by (intro power_increasing) simp_all
  have rng': "(slot + 1) * n < 2 ^ 31" and len': "(slot + 1) * n \<le> length buckets"
    using rng len by (simp_all add: n_def)
  have top: "(slot + 1) * n - 1 = slot * n + (n - 1)" using n2 by (simp add: algebra_simps)
  have cnt: "(n + 2 ^ 32 - 2) mod 2 ^ 32 = n - 2"
  proof -
    have "n + 2 ^ 32 - 2 = (n - 2) + 1 * 2 ^ 32" using n2 by simp
    then have "(n + 2 ^ 32 - 2) mod 2 ^ 32 = (n - 2) mod 2 ^ 32" by (simp only: mod_mult_self1)
    also have "\<dots> = n - 2" using n30 by simp
    finally show ?thesis .
  qed
  have guard: "\<not> (c > 30 \<or> (slot + 1) * 2 ^ c \<ge> 2 ^ 31)"
    using c30 rng by simp
  define m where "m = n - 1"
  have m1: "1 \<le> m" and s1: "Suc (n - 2) = m" and s2: "n = Suc m" and s3: "n - 2 = m - 1"
    using n2 by (simp_all add: m_def)
  define b where "b = buckets ! (slot * n + m)"
  have rd: "read buckets ((slot + 1) * n - 1) = Some b"
    using len' n2 unfolding top b_def m_def by (simp add: read_def algebra_simps)
  have in1: "slot * n + (n - 2) < length buckets" using len' n2 by (simp add: algebra_simps)
  have in2: "slot * n + (n - 2) < 2 ^ 32" using rng' n2 by (simp add: algebra_simps)
  have ex': "val (add C (buckets ! (slot * n + d)) L) = val (buckets ! (slot * n + d)) + val L"
    if d: "1 \<le> d" "d \<le> n - 2"
      and L: "val L = val (fst (b, b)) + (\<Sum>j = Suc d ..< Suc (n - 2). val (buckets ! (slot * n + j)))"
    for d L
  proof (rule ex [unfolded n_def [symmetric]])
    show "1 \<le> d" by (rule d)
    show "d < n - 1" using d n2 by simp
    define f where "f = (\<lambda>j. val (buckets ! (slot * n + j)))"
    have dm: "Suc d \<le> m" using d(2) m1 unfolding s3 by simp
    have L': "val L = val b + sum f {Suc d ..< m}"
      using L unfolding fst_conv s1 f_def .
    have "sum f {Suc d ..< Suc m} = sum f {Suc d ..< m} + f m"
      using dm by (rule sum.atLeastLessThan_Suc)
    moreover have "f m = val b" by (simp add: f_def b_def)
    moreover have "{Suc d ..< n} = {Suc d ..< Suc m}" using s2 by simp
    ultimately have "val L = sum f {Suc d ..< n}"
      using L' by (simp add: add.commute)
    then show "val L = (\<Sum>j = Suc d ..< n. val (buckets ! (slot * n + j)))"
      by (simp only: f_def)
  qed
  from running_sum_loop_val_gen [OF ct ex' in1 in2]
  obtain L T where r: "running_sum_loop C buckets (slot * n) (n - 2) (b, b) = Some (L, T)"
    and v: "val T = val (snd (b, b)) + scalar_mul (n - 2) (val (fst (b, b)))
                    + (\<Sum>d = 1 ..< Suc (n - 2). scalar_mul d (val (buckets ! (slot * n + d))))"
    by blast
  have k: "bucket_running_sum_kernel C buckets c slot = Some T"
    using guard r rd unfolding bucket_running_sum_kernel_def n_def [symmetric] cnt
    by simp
  obtain k' where mk: "m = Suc k'" using m1 by (cases m) simp_all
  have sm: "val b + scalar_mul (m - 1) (val b) = scalar_mul m (val b)"
    by (simp add: mk)
  have "val T = val b + scalar_mul (m - 1) (val b)
                + (\<Sum>d = 1 ..< m. scalar_mul d (val (buckets ! (slot * n + d))))"
    by (rule v [unfolded snd_conv fst_conv s1, unfolded s3])
  also have "\<dots> = scalar_mul m (val b) + (\<Sum>d = 1 ..< m. scalar_mul d (val (buckets ! (slot * n + d))))"
    by (simp only: sm)
  also have "\<dots> = (\<Sum>d = 1 ..< Suc m. scalar_mul d (val (buckets ! (slot * n + d))))"
    using m1 by (simp add: b_def sum.atLeastLessThan_Suc add.commute)
  finally have vT: "val T = (\<Sum>d = 1 ..< n. scalar_mul d (val (buckets ! (slot * n + d))))"
    using s2 by simp
  from k vT show ?thesis unfolding n_def by blast
qed

text \<open>
  With the contract alone the update of \<open>line_sum\<close> is exact unless a bucket sum stands for
  the same point as the sum of the buckets above it (and that point is not its own
  inverse).
\<close>

lemma contract_add_raw:
  assumes ct: "curve_contract C val" and t: "val a = val b \<longrightarrow> val a + val a = 0"
  shows "val (add C a b) = val a + val b"
proof (cases "is_zero_element C (add C a b)")
  case True
  with ct have e: "val a = val b" and z: "val (add C a b) = 0"
    by (auto simp add: curve_contract_def)
  from e t have "val a + val b = 0" by simp
  with z show ?thesis by simp
next
  case False
  with ct show ?thesis by (simp add: curve_contract_def)
qed

lemma bucket_running_sum_kernel_raw:
  assumes ct: "curve_contract C val"
    and c1: "1 \<le> c" and c30: "c \<le> 30"
    and rng: "(slot + 1) * 2 ^ c < 2 ^ 31"
    and len: "(slot + 1) * 2 ^ c \<le> length buckets"
    and distinct: "\<And>d. 1 \<le> d \<Longrightarrow> d < 2 ^ c - 1 \<Longrightarrow>
        val (buckets ! (slot * 2 ^ c + d))
          = (\<Sum>j = Suc d ..< 2 ^ c. val (buckets ! (slot * 2 ^ c + j))) \<Longrightarrow>
        val (buckets ! (slot * 2 ^ c + d)) + val (buckets ! (slot * 2 ^ c + d)) = 0"
  shows "\<exists>r. bucket_running_sum_kernel C buckets c slot = Some r
             \<and> val r = (\<Sum>d = 1 ..< 2 ^ c. scalar_mul d (val (buckets ! (slot * 2 ^ c + d))))"
proof (rule bucket_running_sum_kernel_val_gen [OF ct c1 c30 rng len])
  fix d L
  assume d: "1 \<le> d" "d < 2 ^ c - 1"
    and L: "val L = (\<Sum>j = Suc d ..< 2 ^ c. val (buckets ! (slot * 2 ^ c + j)))"
  show "val (add C (buckets ! (slot * 2 ^ c + d)) L) = val (buckets ! (slot * 2 ^ c + d)) + val L"
    by (rule contract_add_raw [OF ct]) (use distinct [OF d] L in simp)
qed

lemma read_update_other: "n \<noteq> k \<Longrightarrow> read (xs[k := p]) n = read xs n"
  by (simp add: read_def)

lemma running_sum_loop_update:
  "base + i < 2 ^ 32 \<Longrightarrow>
     running_sum_loop C (buckets[base := p]) base i st = running_sum_loop C buckets base i st"
proof (induction i arbitrary: st)
  case 0
  then show ?case by simp
next
  case (Suc i)
  have "(base + Suc i) mod 2 ^ 32 \<noteq> base" using Suc.prems by simp
  then have rd: "read (buckets[base := p]) ((base + Suc i) mod 2 ^ 32)
                   = read buckets ((base + Suc i) mod 2 ^ 32)"
    by (rule read_update_other)
  have "base + i < 2 ^ 32" using Suc.prems by simp
  note IH = Suc.IH [OF this]
  show ?case
    unfolding running_sum_loop.simps rd by (simp add: IH Let_def split: option.splits)
qed

text \<open>
  The digit-0 bucket of the module is never read: overwriting it does not change the
  result.
\<close>

lemma bucket_running_sum_kernel_update:
  assumes c1: "1 \<le> c" and c30: "c \<le> 30" and rng: "(slot + 1) * 2 ^ c < 2 ^ 31"
  shows "bucket_running_sum_kernel C (buckets[slot * 2 ^ c := p]) c slot
           = bucket_running_sum_kernel C buckets c slot"
proof -
  define n :: nat where "n = 2 ^ c"
  have n2: "2 \<le> n"
    using c1 unfolding n_def by (metis power_increasing one_le_numeral power_one_right)
  have n30: "n \<le> 2 ^ 30"
    using c30 unfolding n_def by (intro power_increasing) simp_all
  have rng': "(slot + 1) * n < 2 ^ 31" using rng by (simp add: n_def)
  have top: "(slot + 1) * n - 1 = slot * n + (n - 1)" using n2 by (simp add: algebra_simps)
  have cnt: "(n + 2 ^ 32 - 2) mod 2 ^ 32 = n - 2"
  proof -
    have "n + 2 ^ 32 - 2 = (n - 2) + 1 * 2 ^ 32" using n2 by simp
    then have "(n + 2 ^ 32 - 2) mod 2 ^ 32 = (n - 2) mod 2 ^ 32" by (simp only: mod_mult_self1)
    also have "\<dots> = n - 2" using n30 by simp
    finally show ?thesis .
  qed
  have in2: "slot * n + (n - 2) < 2 ^ 32" using rng' n2 by (simp add: algebra_simps)
  have ne: "(slot + 1) * n - 1 \<noteq> slot * n" using n2 unfolding top by simp
  have "bucket_running_sum_kernel C (buckets[slot * n := p]) c slot
          = bucket_running_sum_kernel C buckets c slot"
    unfolding bucket_running_sum_kernel_def n_def [symmetric] cnt
      read_update_other [OF ne] running_sum_loop_update [OF in2]
    by (rule refl)
  then show ?thesis unfolding n_def .
qed

subsection \<open>Running sum on the raw addition\<close>

text \<open>
  C5. One module with \<open>c = 2\<close> whose buckets 2 and 3 both hold \<open>P\<close>, on the reference
  arithmetic, whose addition is the raw formula and meets the contract (lemma
  \<open>ref_contract\<close>). \<^verbatim>\<open>bucket_running_sum_kernel\<close> returns \<open>P\<close>, which stands for 1, where
  \<open>\<Sum>\<^sub>d d \<cdot> bucket_sum[d]\<close> is \<open>5 \<cdot> P\<close>: the update of \<open>line_sum\<close> adds bucket 2 to
  \<open>line_sum = P\<close> and keeps the all-zero triple that the raw formula yields. On buckets
  \<open>P\<close>, \<open>2 \<cdot> P\<close>, \<open>4 \<cdot> P\<close>, where no update of \<open>line_sum\<close> meets equal operands, the kernel
  returns \<open>17 \<cdot> P\<close>, the weighted sum.
\<close>

theorem bucket_running_sum_kernel_raw_line_sum:
  "bucket_running_sum_kernel ref_curve
       [\<lparr>X = 0, Y = 0, Z = 0\<rparr>, \<lparr>X = 0, Y = 0, Z = 0\<rparr>, ref_point 1, ref_point 1] 2 0
     = Some (ref_point 1)
   \<and> ref_val (ref_point 1) = 1
   \<and> (\<Sum>d = 1 ..< 2 ^ 2. scalar_mul d
          (ref_val ([\<lparr>X = 0, Y = 0, Z = 0\<rparr>, \<lparr>X = 0, Y = 0, Z = 0\<rparr>, ref_point 1, ref_point 1]
                      ! (0 * 2 ^ 2 + d)))) = 5
   \<and> bucket_running_sum_kernel ref_curve
         [ref_point 9, ref_point 1, ref_point 2, ref_point 4] 2 0
       = Some (ref_point 17)
   \<and> (\<Sum>d = 1 ..< 2 ^ 2. scalar_mul d
          (ref_val ([ref_point 9, ref_point 1, ref_point 2, ref_point 4] ! (0 * 2 ^ 2 + d)))) = 17"
proof -
  have "bucket_running_sum_kernel ref_curve
       [\<lparr>X = 0, Y = 0, Z = 0\<rparr>, \<lparr>X = 0, Y = 0, Z = 0\<rparr>, ref_point 1, ref_point 1] 2 0
     = Some (ref_point 1)"
    by (simp add: bucket_running_sum_kernel_def running_sum_loop_numeral running_sum_loop_1 ref_eval)
  moreover have "ref_val (ref_point 1) = 1"
    by (simp add: ref_val_def ref_point_def)
  moreover have "(\<Sum>d = 1 ..< 2 ^ 2. scalar_mul d
          (ref_val ([\<lparr>X = 0, Y = 0, Z = 0\<rparr>, \<lparr>X = 0, Y = 0, Z = 0\<rparr>, ref_point 1, ref_point 1]
                      ! (0 * 2 ^ 2 + d)))) = 5"
    by (simp add: scalar_mul_int ref_val_def ref_point_def sum.atLeast_Suc_lessThan)
  moreover have "bucket_running_sum_kernel ref_curve
         [ref_point 9, ref_point 1, ref_point 2, ref_point 4] 2 0
       = Some (ref_point 17)"
    by (simp add: bucket_running_sum_kernel_def running_sum_loop_numeral running_sum_loop_1 ref_eval)
  moreover have "(\<Sum>d = 1 ..< 2 ^ 2. scalar_mul d
          (ref_val ([ref_point 9, ref_point 1, ref_point 2, ref_point 4] ! (0 * 2 ^ 2 + d)))) = 17"
    by (simp add: scalar_mul_int ref_val_def ref_point_def sum.atLeast_Suc_lessThan)
  ultimately show ?thesis by blast
qed

section \<open>Further claims\<close>

subsection \<open>Windowed reducer\<close>

text \<open>
  C7. One module with \<open>c = 2\<close>, split into \<open>M = 2\<close> segments of \<open>U = 2\<close> buckets, where only
  bucket 1 is not the identity (it is \<open>P\<close>). The plain reducer returns \<open>P\<close>. The workers 0
  and 1 of \<^verbatim>\<open>bucket_running_sum_kernel_2\<close> yield \<open>(P, P)\<close> and the zero pair; on these,
  \<^verbatim>\<open>bucket_running_sum_kernel_3\<close> (with \<^verbatim>\<open>log2f(2)\<close> = 1) returns \<open>2 \<cdot> P\<close>: it stores \<open>S_k\<close>,
  not the sum \<open>G_k\<close> it has just computed. On every input, what kernel 3 returns is
  computed from the segment sums alone.
\<close>

theorem windowed_running_sum_differs:
  "bucket_running_sum_kernel ref_curve
       [\<lparr>X = 0, Y = 0, Z = 0\<rparr>, ref_point 1, \<lparr>X = 0, Y = 0, Z = 0\<rparr>, \<lparr>X = 0, Y = 0, Z = 0\<rparr>] 2 0
     = Some (ref_point 1)
   \<and> bucket_running_sum_kernel_2 ref_curve
         [\<lparr>X = 0, Y = 0, Z = 0\<rparr>, ref_point 1, \<lparr>X = 0, Y = 0, Z = 0\<rparr>, \<lparr>X = 0, Y = 0, Z = 0\<rparr>] 2 2 0
       = Some (ref_point 1, ref_point 1)
   \<and> bucket_running_sum_kernel_2 ref_curve
         [\<lparr>X = 0, Y = 0, Z = 0\<rparr>, ref_point 1, \<lparr>X = 0, Y = 0, Z = 0\<rparr>, \<lparr>X = 0, Y = 0, Z = 0\<rparr>] 2 2 1
       = Some (\<lparr>X = 0, Y = 0, Z = 0\<rparr>, \<lparr>X = 0, Y = 0, Z = 0\<rparr>)
   \<and> bucket_running_sum_kernel_3 ref_curve (\<lambda>U. 1)
         [ref_point 1, \<lparr>X = 0, Y = 0, Z = 0\<rparr>] [ref_point 1, \<lparr>X = 0, Y = 0, Z = 0\<rparr>] 2 2 0
       = Some (ref_point 2)
   \<and> (bucket_running_sum_kernel_3 C lg S_arr G_arr M U slot = None
        \<or> bucket_running_sum_kernel_3 C lg S_arr G_arr M U slot
            = map_option (\<lambda>st. (doubling C ^^ lg U) (snd st))
                (running_sum_3_segments C S_arr (slot * ((M + 2 ^ 32 - 1) mod 2 ^ 32))
                   ((M + 2 ^ 32 - 1) mod 2 ^ 32)))"
proof -
  have "bucket_running_sum_kernel ref_curve
       [\<lparr>X = 0, Y = 0, Z = 0\<rparr>, ref_point 1, \<lparr>X = 0, Y = 0, Z = 0\<rparr>, \<lparr>X = 0, Y = 0, Z = 0\<rparr>] 2 0
     = Some (ref_point 1)"
    by (simp add: bucket_running_sum_kernel_def running_sum_loop_numeral running_sum_loop_1 ref_eval)
  moreover have "bucket_running_sum_kernel_2 ref_curve
         [\<lparr>X = 0, Y = 0, Z = 0\<rparr>, ref_point 1, \<lparr>X = 0, Y = 0, Z = 0\<rparr>, \<lparr>X = 0, Y = 0, Z = 0\<rparr>] 2 2 0
       = Some (ref_point 1, ref_point 1)"
    by (simp add: bucket_running_sum_kernel_2_def running_sum_2_loop_numeral
          running_sum_2_loop_1 ref_eval)
  moreover have "bucket_running_sum_kernel_2 ref_curve
         [\<lparr>X = 0, Y = 0, Z = 0\<rparr>, ref_point 1, \<lparr>X = 0, Y = 0, Z = 0\<rparr>, \<lparr>X = 0, Y = 0, Z = 0\<rparr>] 2 2 1
       = Some (\<lparr>X = 0, Y = 0, Z = 0\<rparr>, \<lparr>X = 0, Y = 0, Z = 0\<rparr>)"
    by (simp add: bucket_running_sum_kernel_2_def running_sum_2_loop_numeral
          running_sum_2_loop_1 ref_eval)
  moreover have "bucket_running_sum_kernel_3 ref_curve (\<lambda>U. 1)
         [ref_point 1, \<lparr>X = 0, Y = 0, Z = 0\<rparr>] [ref_point 1, \<lparr>X = 0, Y = 0, Z = 0\<rparr>] 2 2 0
       = Some (ref_point 2)"
    by (simp add: bucket_running_sum_kernel_3_def running_sum_3_segments_def
          running_sum_3_offsets_def upt_rec ref_eval)
  moreover have "bucket_running_sum_kernel_3 C lg S_arr G_arr M U slot = None
        \<or> bucket_running_sum_kernel_3 C lg S_arr G_arr M U slot
            = map_option (\<lambda>st. (doubling C ^^ lg U) (snd st))
                (running_sum_3_segments C S_arr (slot * ((M + 2 ^ 32 - 1) mod 2 ^ 32))
                   ((M + 2 ^ 32 - 1) mod 2 ^ 32))"
    by (simp add: bucket_running_sum_kernel_3_def Let_def split: option.splits)
  ultimately show ?thesis by blast
qed

subsection \<open>Addition sites\<close>

text \<open>
  C8. The last addition of \<^verbatim>\<open>double_and_add_kernel\<close> stores the raw sum, whatever it is. On
  twice the same point with scalar 1 the raw sum of the two products is the all-zero
  triple, and that is the kernel's result; the doubling of the operand would be \<open>2 \<cdot> P\<close>.
  The update of \<open>line_sum\<close> in \<^verbatim>\<open>bucket_running_sum_kernel\<close> stores the raw sum as well: with
  buckets 2 and 3 both holding \<open>P\<close>, the kernel returns \<open>P\<close>, where
  \<open>\<Sum>\<^sub>d d \<cdot> bucket_sum[d]\<close> is \<open>5 \<cdot> P\<close>.
\<close>

theorem addition_sites_without_substitution:
  "double_and_add_kernel C [s] [Q] 1
     = Some (add C (limb_loop C s Q (zero_element C)) (zero_element C))
   \<and> double_and_add_kernel ref_curve [Fr 1 0 0 0, Fr 1 0 0 0] [ref_point 1, ref_point 1] 2
       = Some \<lparr>X = 0, Y = 0, Z = 0\<rparr>
   \<and> ref_add (ref_point 1) (ref_point 1) = \<lparr>X = 0, Y = 0, Z = 0\<rparr>
   \<and> ref_doubling (ref_point 1) = ref_point 2
   \<and> bucket_running_sum_kernel ref_curve
         [\<lparr>X = 0, Y = 0, Z = 0\<rparr>, \<lparr>X = 0, Y = 0, Z = 0\<rparr>, ref_point 1, ref_point 1] 2 0
       = Some (ref_point 1)
   \<and> (\<Sum>d = 1 ..< 2 ^ 2. scalar_mul d
          (ref_val ([\<lparr>X = 0, Y = 0, Z = 0\<rparr>, \<lparr>X = 0, Y = 0, Z = 0\<rparr>, ref_point 1, ref_point 1] ! d))) = 5"
proof -
  have "double_and_add_kernel C [s] [Q] 1
     = Some (add C (limb_loop C s Q (zero_element C)) (zero_element C))"
    by (simp add: double_and_add_kernel_def double_and_add_step_def read_def)
  moreover have "double_and_add_kernel ref_curve [Fr 1 0 0 0, Fr 1 0 0 0] [ref_point 1, ref_point 1] 2
       = Some \<lparr>X = 0, Y = 0, Z = 0\<rparr>"
    by (simp add: double_and_add_kernel_def double_and_add_step_def limb_loop_one upt_rec ref_eval)
  moreover have "ref_add (ref_point 1) (ref_point 1) = \<lparr>X = 0, Y = 0, Z = 0\<rparr>"
    by (simp add: ref_add_points)
  moreover have "ref_doubling (ref_point 1) = ref_point 2"
    by (simp add: ref_doubling_simps)
  moreover have "bucket_running_sum_kernel ref_curve
         [\<lparr>X = 0, Y = 0, Z = 0\<rparr>, \<lparr>X = 0, Y = 0, Z = 0\<rparr>, ref_point 1, ref_point 1] 2 0
       = Some (ref_point 1)"
    by (simp add: bucket_running_sum_kernel_def running_sum_loop_numeral running_sum_loop_1 ref_eval)
  moreover have "(\<Sum>d = 1 ..< 2 ^ 2. scalar_mul d
          (ref_val ([\<lparr>X = 0, Y = 0, Z = 0\<rparr>, \<lparr>X = 0, Y = 0, Z = 0\<rparr>, ref_point 1, ref_point 1] ! d))) = 5"
    by (simp add: scalar_mul_int ref_val_def ref_point_def sum.atLeast_Suc_lessThan)
  ultimately show ?thesis by blast
qed

subsection \<open>No points\<close>

text \<open>
  C9. For \<open>n = 0\<close>, \<open>msm\<close> returns the point with three zero coordinates and launches no
  stage. The naive kernel, were it launched on no points, would store the same point.
\<close>

theorem msm_zero_points:
  "msm C sorter zero_element' buckets0 threshold c num_bucket_modules points scalars 0
     = (Some (zero_element C), [])
   \<and> double_and_add_kernel C scalars points 0 = Some (zero_element C)"
  by (simp add: msm_def double_and_add_kernel_def)

subsection \<open>Arguments of the final accumulation\<close>

lemma read_take: "z < n \<Longrightarrow> read (take n xs) z = read xs z"
  by (simp add: read_def)

lemma final_accumulation_loop_take:
  "z \<le> n \<Longrightarrow> final_accumulation_loop C (take n final_sum) z final_result
              = final_accumulation_loop C final_sum z final_result"
  by (induction z arbitrary: final_result) (simp_all add: read_take Let_def split: option.splits)

text \<open>
  C10. For a collaborator arithmetic that meets the contract: the result of
  \<^verbatim>\<open>final_accumulation_kernel\<close> is the same for any two values of \<open>num_bucket_modules\<close> and
  of \<open>c\<close>. The kernel reads exactly the first 26 entries of \<open>final_sum\<close>: it has a result if
  and only if there are 26 entries, and the result depends on these only. The result
  stands for \<open>\<Sum>\<^sub>i final_sum[i] \<cdot> 2 ^ (10 * i)\<close>, \<open>i\<close> from 0 to 25. The scaling of the running
  result between two modules is, whatever \<open>c\<close> is, the double-and-add loop on the exponent
  1024: one addition to the (doubled) zero point and then ten doublings.
\<close>

theorem final_accumulation_kernel_ignores_parameters:
  assumes "curve_contract C val"
  shows "final_accumulation_kernel C final_sum num_bucket_modules c
           = final_accumulation_kernel C final_sum num_bucket_modules' c'
         \<and> (final_accumulation_kernel C final_sum num_bucket_modules c = None
              \<longleftrightarrow> length final_sum < 26)
         \<and> final_accumulation_kernel C final_sum num_bucket_modules c
             = final_accumulation_kernel C (take 26 final_sum) num_bucket_modules c
         \<and> (26 \<le> length final_sum \<longrightarrow>
              (\<exists>r. final_accumulation_kernel C final_sum num_bucket_modules c = Some r
                   \<and> val r = (\<Sum>i < 26. scalar_mul (2 ^ (10 * i)) (val (final_sum ! i)))))
         \<and> limb_loop C exponent Q R = (doubling C ^^ 10) (add C Q ((doubling C ^^ 246) R))"
proof (intro conjI impI)
  show "final_accumulation_kernel C final_sum num_bucket_modules c
           = final_accumulation_kernel C final_sum num_bucket_modules' c'"
    by (simp add: final_accumulation_kernel_def)
  show "final_accumulation_kernel C final_sum num_bucket_modules c = None
              \<longleftrightarrow> length final_sum < 26"
    by (rule final_accumulation_kernel_None)
  show "final_accumulation_kernel C final_sum num_bucket_modules c
             = final_accumulation_kernel C (take 26 final_sum) num_bucket_modules c"
    by (simp add: final_accumulation_kernel_def final_accumulation_loop_take)
  show "limb_loop C exponent Q R = (doubling C ^^ 10) (add C Q ((doubling C ^^ 246) R))"
    by (rule limb_loop_exponent)
  assume "26 \<le> length final_sum"
  with assms show "\<exists>r. final_accumulation_kernel C final_sum num_bucket_modules c = Some r
                   \<and> val r = (\<Sum>i < 26. scalar_mul (2 ^ (10 * i)) (val (final_sum ! i)))"
    by (rule final_accumulation_kernel_val)
qed

text \<open>
  The theorem on the reference arithmetic, with 26 module sums of which modules 0, 1 and 25
  are not the identity, and the arguments of \<open>c = 4\<close> against those of \<open>c = 10\<close>.
\<close>

theorem final_accumulation_kernel_ignores_parameters_witness:
  "final_accumulation_kernel ref_curve
       ([ref_point 1, ref_point 3] @ replicate 23 \<lparr>X = 0, Y = 0, Z = 0\<rparr> @ [ref_point 1]) 64 4
     = final_accumulation_kernel ref_curve
         ([ref_point 1, ref_point 3] @ replicate 23 \<lparr>X = 0, Y = 0, Z = 0\<rparr> @ [ref_point 1]) 26 10
   \<and> final_accumulation_kernel ref_curve
       ([ref_point 1, ref_point 3] @ replicate 23 \<lparr>X = 0, Y = 0, Z = 0\<rparr> @ [ref_point 1]) 64 4
     = Some (ref_point (2 ^ 250 + 3 * 2 ^ 10 + 1))
   \<and> (\<Sum>i < 26. scalar_mul (2 ^ (10 * i))
         (ref_val (([ref_point 1, ref_point 3] @ replicate 23 \<lparr>X = 0, Y = 0, Z = 0\<rparr> @ [ref_point 1]) ! i)))
     = 2 ^ 250 + 3 * 2 ^ 10 + 1"
proof -
  have k: "final_accumulation_kernel ref_curve
       ([ref_point 1, ref_point 3] @ replicate 23 \<lparr>X = 0, Y = 0, Z = 0\<rparr> @ [ref_point 1]) 64 4
     = Some (ref_point (2 ^ 250 + 3 * 2 ^ 10 + 1))"
    by (simp add: final_accumulation_kernel_def final_accumulation_loop_numeral
          final_accumulation_loop_1 ref_eval)
  have v: "ref_val (ref_point (2 ^ 250 + 3 * 2 ^ 10 + 1)) = 2 ^ 250 + 3 * 2 ^ 10 + 1"
    by (simp add: ref_val_def ref_point_def)
  from final_accumulation_kernel_ignores_parameters [OF ref_contract,
         of "[ref_point 1, ref_point 3] @ replicate 23 \<lparr>X = 0, Y = 0, Z = 0\<rparr> @ [ref_point 1]" 64 4 26 10]
  show ?thesis unfolding k using v by simp
qed

end
